theory Spec2Isabelle
  imports Complex_Main "HOL-Library.Multiset"
begin

section \<open>Conventions of the embedding\<close>

text \<open>
  The JavaScript sources are embedded function by function.

  \<^item> A JavaScript number is a \<open>real\<close>: rounding, overflow to \<open>Infinity\<close> and \<open>NaN\<close> are not
    modelled. The population size \<open>params.n\<close> is an \<open>int\<close> (the interface hands it over
    through \<open>parseInt\<close>).
  \<^item> \<open>Math.random()\<close> reads an explicit, infinite sequence of draws; every function that
    draws returns the rest of the sequence, so the order of the draws is the source's.
  \<^item> An object mutated in place is a record that the function returns updated. A function
    that can throw after it has mutated returns the thrown error (if any) together with the
    object as the throw leaves it.
  \<^item> The only exception the sources can raise is the \<open>TypeError\<close> of a property read on
    \<open>undefined\<close>. \<open>UnknownFunctionKey\<close> and \<open>InvalidParameter\<close> are the error names of the
    specification; no source function raises them.
  \<^item> Field names follow the sources, except \<open>x\<close>, \<open>y\<close>, \<open>value\<close> of a firefly
    (\<open>pos_x\<close>, \<open>pos_y\<close>, \<open>fvalue\<close>), the fields of \<open>params\<close> (prefix \<open>param_\<close>), the fields of
    the argument of \<open>setParams\<close> (prefix \<open>new_\<close>) and the \<open>objectiveFunction\<close> of the algorithm
    object (\<open>algObjectiveFunction\<close>; the firefly's field keeps the name).
\<close>

datatype js_error = TypeError | UnknownFunctionKey | InvalidParameter

type_synonym rand = "nat \<Rightarrow> real"

definition random :: "rand \<Rightarrow> real \<times> rand" where
  "random r = (r 0, \<lambda>k. r (Suc k))"

definition unit_draws :: "rand \<Rightarrow> bool" where
  "unit_draws r \<longleftrightarrow> (\<forall>k. 0 \<le> r k \<and> r k < 1)"

section \<open>objective-functions.js\<close>

record domain =
  xMin :: real
  xMax :: real
  yMin :: real
  yMax :: real

record optimum =
  opt_x :: real
  opt_y :: real
  opt_value :: real

record objective_function =
  name :: string
  fn :: "real \<Rightarrow> real \<Rightarrow> real"
  domain :: domain
  optima :: "optimum list"
  minimize :: bool

definition michalewicz :: objective_function where
  "michalewicz =
    \<lparr> name = ''Michalewicz'',
      fn = (\<lambda>x y.
        let m = (10 :: nat);
            term1 = sin x * (sin ((x * x) / pi)) ^ (2 * m);
            term2 = sin y * (sin ((2 * y * y) / pi)) ^ (2 * m)
        in - (term1 + term2)),
      domain = \<lparr> xMin = 0, xMax = pi, yMin = 0, yMax = pi \<rparr>,
      optima = [\<lparr> opt_x = 2.20, opt_y = 1.57, opt_value = - 1.801 \<rparr>],
      minimize = True \<rparr>"

definition rastrigin :: objective_function where
  "rastrigin =
    \<lparr> name = ''Rastrigin'',
      fn = (\<lambda>x y.
        let A = (10 :: real)
        in A * 2 + (x * x - A * cos (2 * pi * x)) + (y * y - A * cos (2 * pi * y))),
      domain = \<lparr> xMin = - 5.12, xMax = 5.12, yMin = - 5.12, yMax = 5.12 \<rparr>,
      optima = [\<lparr> opt_x = 0, opt_y = 0, opt_value = 0 \<rparr>],
      minimize = True \<rparr>"

definition rosenbrock :: objective_function where
  "rosenbrock =
    \<lparr> name = ''Rosenbrock'',
      fn = (\<lambda>x y.
        let a = (1 :: real); b = (100 :: real)
        in (a - x) ^ 2 + b * (y - x * x) ^ 2),
      domain = \<lparr> xMin = - 2, xMax = 2, yMin = - 1, yMax = 3 \<rparr>,
      optima = [\<lparr> opt_x = 1, opt_y = 1, opt_value = 0 \<rparr>],
      minimize = True \<rparr>"

definition himmelblau :: objective_function where
  "himmelblau =
    \<lparr> name = ''Himmelblau'',
      fn = (\<lambda>x y. (x * x + y - 11) ^ 2 + (x + y * y - 7) ^ 2),
      domain = \<lparr> xMin = - 5, xMax = 5, yMin = - 5, yMax = 5 \<rparr>,
      optima =
        [\<lparr> opt_x = 3.0, opt_y = 2.0, opt_value = 0 \<rparr>,
         \<lparr> opt_x = - 2.805118, opt_y = 3.131312, opt_value = 0 \<rparr>,
         \<lparr> opt_x = - 3.779310, opt_y = - 3.283186, opt_value = 0 \<rparr>,
         \<lparr> opt_x = 3.584428, opt_y = - 1.848126, opt_value = 0 \<rparr>],
      minimize = True \<rparr>"

definition sphere :: objective_function where
  "sphere =
    \<lparr> name = ''Sphere'',
      fn = (\<lambda>x y. x * x + y * y),
      domain = \<lparr> xMin = - 5, xMax = 5, yMin = - 5, yMax = 5 \<rparr>,
      optima = [\<lparr> opt_x = 0, opt_y = 0, opt_value = 0 \<rparr>],
      minimize = True \<rparr>"

text \<open>
  The registry object, read as \<open>objectiveFunctions[key]\<close>: \<open>None\<close> is JavaScript's
  \<open>undefined\<close> for a key the object does not have.
\<close>

definition objectiveFunctions :: "string \<Rightarrow> objective_function option" where
  "objectiveFunctions key =
    (if key = ''michalewicz'' then Some michalewicz
     else if key = ''rastrigin'' then Some rastrigin
     else if key = ''rosenbrock'' then Some rosenbrock
     else if key = ''himmelblau'' then Some himmelblau
     else if key = ''sphere'' then Some sphere
     else None)"

section \<open>firefly.js\<close>

datatype gender = Male | Female

record firefly =
  pos_x :: real
  pos_y :: real
  objectiveFunction :: "objective_function option"
  brightness :: real
  trail :: "(real \<times> real) list"
  maxTrailLength :: nat
  gender :: gender
  flashPhase :: real
  flashInterval :: real
  flashDuration :: real
  isFlashing :: bool
  flashIntensity :: real
  responseDelay :: real
  isResponding :: bool
  fvalue :: real

text \<open>
  \<open>evaluate\<close> throws on the read of \<open>this.objectiveFunction.fn\<close> before it assigns anything.
\<close>

definition evaluate :: "firefly \<Rightarrow> js_error + firefly" where
  "evaluate f =
    (case objectiveFunction f of
       None \<Rightarrow> Inl TypeError
     | Some obj \<Rightarrow>
         (let v = fn obj (pos_x f) (pos_y f)
          in Inr (f\<lparr> fvalue := v, brightness := - v \<rparr>)))"

text \<open>
  The constructor. It draws, in this order, the gender, the phase offset, the interval and
  the duration, and evaluates last. The field \<open>value\<close> does not exist before
  \<open>evaluate\<close> has run; the \<open>0\<close> it holds here is never read, since a constructor whose
  \<open>evaluate\<close> throws returns no object.
\<close>

definition newFirefly ::
  "real \<Rightarrow> real \<Rightarrow> objective_function option \<Rightarrow> rand \<Rightarrow> (js_error + firefly) \<times> rand" where
  "newFirefly x y objf r0 =
    (let (u1, r1) = random r0;
         g = (if u1 < 0.5 then Male else Female);
         (u2, r2) = random r1;
         (u3, r3) = random r2;
         interval = (if g = Male then 1500 + u3 * 1500 else 3000 + u3 * 3000);
         (u4, r4) = random r3;
         f = \<lparr> pos_x = x, pos_y = y, objectiveFunction = objf, brightness = 0,
               trail = [], maxTrailLength = 20, gender = g,
               flashPhase = u2 * 6000, flashInterval = interval,
               flashDuration = 150 + u4 * 100,
               isFlashing = False, flashIntensity = 0,
               responseDelay = 0, isResponding = False, fvalue = 0 \<rparr>
     in (evaluate f, r4))"

definition distanceTo :: "firefly \<Rightarrow> firefly \<Rightarrow> real" where
  "distanceTo f other =
    (let dx = pos_x f - pos_x other;
         dy = pos_y f - pos_y other
     in sqrt (dx * dx + dy * dy))"

definition clampToDomain :: "firefly \<Rightarrow> domain \<Rightarrow> firefly" where
  "clampToDomain f d =
    f\<lparr> pos_x := max (xMin d) (min (xMax d) (pos_x f)),
       pos_y := max (yMin d) (min (yMax d) (pos_y f)) \<rparr>"

definition addTrailPoint :: "firefly \<Rightarrow> firefly" where
  "addTrailPoint f =
    (let t = trail f @ [(pos_x f, pos_y f)]
     in f\<lparr> trail := (if length t > maxTrailLength f then tl t else t) \<rparr>)"

definition clearTrail :: "firefly \<Rightarrow> firefly" where
  "clearTrail f = f\<lparr> trail := [] \<rparr>"

text \<open>
  \<open>moveTowards\<close> and \<open>randomWalk\<close> have moved and clamped the firefly when their final
  \<open>evaluate\<close> throws.
\<close>

definition moveTowards ::
  "firefly \<Rightarrow> firefly \<Rightarrow> real \<Rightarrow> real \<Rightarrow> real \<Rightarrow> domain \<Rightarrow> rand
    \<Rightarrow> js_error option \<times> firefly \<times> rand" where
  "moveTowards f other beta0 gamma alpha d r0 =
    (let f1 = addTrailPoint f;
         r = distanceTo f1 other;
         rSquared = r * r;
         beta = beta0 * exp (- gamma * rSquared);
         dx = pos_x other - pos_x f1;
         dy = pos_y other - pos_y f1;
         domainScaleX = xMax d - xMin d;
         domainScaleY = yMax d - yMin d;
         (u1, r1) = random r0;
         f2 = f1\<lparr> pos_x := pos_x f1 + (beta * dx + alpha * domainScaleX * (u1 - 0.5)) \<rparr>;
         (u2, r2) = random r1;
         f3 = f2\<lparr> pos_y := pos_y f2 + (beta * dy + alpha * domainScaleY * (u2 - 0.5)) \<rparr>;
         f4 = clampToDomain f3 d
     in case evaluate f4 of
          Inl e \<Rightarrow> (Some e, f4, r2)
        | Inr f5 \<Rightarrow> (None, f5, r2))"

definition randomWalk ::
  "firefly \<Rightarrow> real \<Rightarrow> domain \<Rightarrow> rand \<Rightarrow> js_error option \<times> firefly \<times> rand" where
  "randomWalk f alpha d r0 =
    (let f1 = addTrailPoint f;
         domainScaleX = xMax d - xMin d;
         domainScaleY = yMax d - yMin d;
         (u1, r1) = random r0;
         f2 = f1\<lparr> pos_x := pos_x f1 + alpha * domainScaleX * (u1 - 0.5) \<rparr>;
         (u2, r2) = random r1;
         f3 = f2\<lparr> pos_y := pos_y f2 + alpha * domainScaleY * (u2 - 0.5) \<rparr>;
         f4 = clampToDomain f3 d
     in case evaluate f4 of
          Inl e \<Rightarrow> (Some e, f4, r2)
        | Inr f5 \<Rightarrow> (None, f5, r2))"

text \<open>
  \<open>updateFlash\<close>: the response countdown, the phase update and the envelope, in the source's
  order. The quotient \<open>flashPhase / flashDuration\<close> is the source's for a duration other
  than \<open>0\<close>; the constructor draws every duration from \<open>[150, 250)\<close>.
\<close>

definition updateFlash :: "firefly \<Rightarrow> real \<Rightarrow> firefly" where
  "updateFlash f deltaTime =
    (let f1 =
           (if isResponding f \<and> responseDelay f > 0 then
              (let g = f\<lparr> responseDelay := responseDelay f - deltaTime \<rparr>
               in if responseDelay g \<le> 0
                  then g\<lparr> isFlashing := True, flashPhase := 0, responseDelay := 0 \<rparr>
                  else g)
            else f);
         f2 =
           (if \<not> isResponding f1 \<or> responseDelay f1 \<le> 0 then
              (let g = f1\<lparr> flashPhase := flashPhase f1 + deltaTime \<rparr>
               in if flashPhase g \<ge> flashInterval g
                  then g\<lparr> isFlashing := True, flashPhase := 0 \<rparr>
                  else g)
            else f1)
     in if isFlashing f2 then
          (let t = flashPhase f2 / flashDuration f2
           in if t < 0.2 then f2\<lparr> flashIntensity := t / 0.2 \<rparr>
              else if t < 1.0 then f2\<lparr> flashIntensity := exp (- 3 * (t - 0.2)) \<rparr>
              else f2\<lparr> isFlashing := False, flashIntensity := 0, isResponding := False \<rparr>)
        else f2)"

text \<open>
  \<open>checkForNearbyFlash\<close> is a method of the firefly at index \<open>i\<close> of the array it is given;
  \<open>other === this\<close> is the test \<open>k = i\<close> on the running index of the scan. The scan returns
  whether it reached the triggering branch.
\<close>

fun nearbyFlashScan :: "nat \<Rightarrow> firefly \<Rightarrow> real \<Rightarrow> nat \<Rightarrow> firefly list \<Rightarrow> bool" where
  "nearbyFlashScan i self responseDistance k [] = False"
| "nearbyFlashScan i self responseDistance k (other # rest) =
    (if k = i \<or> gender other \<noteq> Male then nearbyFlashScan i self responseDistance (Suc k) rest
     else if flashIntensity other > 0.5 then
       (let distance = distanceTo self other
        in if distance < responseDistance then True
           else nearbyFlashScan i self responseDistance (Suc k) rest)
     else nearbyFlashScan i self responseDistance (Suc k) rest)"

definition checkForNearbyFlash ::
  "nat \<Rightarrow> firefly list \<Rightarrow> domain \<Rightarrow> rand \<Rightarrow> firefly list \<times> rand" where
  "checkForNearbyFlash i fireflies d r0 =
    (let self = fireflies ! i
     in if gender self \<noteq> Female \<or> isFlashing self \<or> isResponding self then (fireflies, r0)
        else
          (let timeToNextFlash = flashInterval self - flashPhase self
           in if timeToNextFlash < 500 then (fireflies, r0)
              else
                (let domainScale = max (xMax d - xMin d) (yMax d - yMin d);
                     responseDistance = domainScale * 0.2
                 in if nearbyFlashScan i self responseDistance 0 fireflies then
                      (let (u, r1) = random r0
                       in (fireflies[i := self\<lparr> responseDelay := 400 + u * 200,
                                               isResponding := True \<rparr>], r1))
                    else (fireflies, r0))))"

text \<open>
  \<open>clone\<close> builds a new object with the constructor (which draws and evaluates) and then
  overwrites the fields the source lists.
\<close>

definition clone :: "firefly \<Rightarrow> rand \<Rightarrow> (js_error + firefly) \<times> rand" where
  "clone this r0 =
    (case newFirefly (pos_x this) (pos_y this) (objectiveFunction this) r0 of
       (Inl e, r1) \<Rightarrow> (Inl e, r1)
     | (Inr f, r1) \<Rightarrow>
         (Inr (f\<lparr> gender := gender this,
                  fvalue := fvalue this,
                  brightness := brightness this,
                  flashPhase := flashPhase this,
                  flashInterval := flashInterval this,
                  flashDuration := flashDuration this,
                  isFlashing := isFlashing this,
                  flashIntensity := flashIntensity this,
                  responseDelay := responseDelay this,
                  isResponding := isResponding this \<rparr>), r1))"

section \<open>firefly-algorithm.js: the class FireflyAlgorithm\<close>

record params =
  param_n :: int
  param_gamma :: real
  param_beta0 :: real
  param_alpha :: real
  param_functionKey :: string

text \<open>The argument of \<open>setParams\<close>: a field that the object does not have is \<open>None\<close>.\<close>

record new_params =
  new_n :: "int option"
  new_gamma :: "real option"
  new_beta0 :: "real option"
  new_alpha :: "real option"
  new_functionKey :: "string option"

record algorithm =
  params :: params
  generation :: nat
  fireflies :: "firefly list"
  bestFirefly :: "firefly option"
  algObjectiveFunction :: "objective_function option"

text \<open>
  \<open>updateBest\<close>. On an empty array \<open>best\<close> is \<open>undefined\<close>, the loop does not run, and the
  condition throws on \<open>best.clone\<close> or on \<open>best.value\<close>. \<open>lowestValue\<close> is the loop, started
  from \<open>this.fireflies[0]\<close>: it keeps the first firefly of the least value.
\<close>

definition lowestValue :: "firefly \<Rightarrow> firefly list \<Rightarrow> firefly" where
  "lowestValue f0 fs = foldl (\<lambda>best f. if fvalue f < fvalue best then f else best) f0 fs"

definition updateBest :: "algorithm \<Rightarrow> rand \<Rightarrow> js_error option \<times> algorithm \<times> rand" where
  "updateBest s r0 =
    (case fireflies s of
       [] \<Rightarrow> (Some TypeError, s, r0)
     | f0 # _ \<Rightarrow>
         (let best = lowestValue f0 (fireflies s)
          in if (case bestFirefly s of None \<Rightarrow> True | Some b \<Rightarrow> fvalue best < fvalue b) then
               (case clone best r0 of
                  (Inl e, r1) \<Rightarrow> (Some e, s, r1)
                | (Inr c, r1) \<Rightarrow> (None, s\<lparr> bestFirefly := Some c \<rparr>, r1))
             else (None, s, r0)))"

text \<open>The loop of \<open>initialize\<close>, from the index \<open>i\<close> on.\<close>

function initializeLoop ::
  "nat \<Rightarrow> int \<Rightarrow> objective_function \<Rightarrow> firefly list \<Rightarrow> rand
    \<Rightarrow> js_error option \<times> firefly list \<times> rand" where
  "initializeLoop i n obj fs r0 =
    (if int i < n then
       (let d = domain obj;
            (u1, r1) = random r0;
            x = xMin d + u1 * (xMax d - xMin d);
            (u2, r2) = random r1;
            y = yMin d + u2 * (yMax d - yMin d)
        in case newFirefly x y (Some obj) r2 of
             (Inl e, r3) \<Rightarrow> (Some e, fs, r3)
           | (Inr firefly, r3) \<Rightarrow> initializeLoop (i + 1) n obj (fs @ [firefly]) r3)
     else (None, fs, r0))"
  by pat_completeness auto
termination
  by (relation "measure (\<lambda>(i, n, obj, fs, r0). nat (n - int i))") auto

declare initializeLoop.simps [simp del]

definition initialize :: "algorithm \<Rightarrow> rand \<Rightarrow> js_error option \<times> algorithm \<times> rand" where
  "initialize s r0 =
    (let s1 = s\<lparr> fireflies := [], generation := 0 \<rparr>
     in case algObjectiveFunction s1 of
          None \<Rightarrow> (Some TypeError, s1, r0)
        | Some obj \<Rightarrow>
            (case initializeLoop 0 (param_n (params s1)) obj (fireflies s1) r0 of
               (Some e, fs, r1) \<Rightarrow> (Some e, s1\<lparr> fireflies := fs \<rparr>, r1)
             | (None, fs, r1) \<Rightarrow> updateBest (s1\<lparr> fireflies := fs \<rparr>) r1))"

definition reset :: "algorithm \<Rightarrow> rand \<Rightarrow> js_error option \<times> algorithm \<times> rand" where
  "reset s r0 = initialize s r0"

text \<open>
  The constructor: the defaults of \<open>params.x || default\<close> are taken for an absent field and
  for a falsy one (\<open>0\<close>, the empty string).
\<close>

definition newFireflyAlgorithm ::
  "new_params \<Rightarrow> rand \<Rightarrow> js_error option \<times> algorithm \<times> rand" where
  "newFireflyAlgorithm p r0 =
    (let ps = \<lparr> param_n = (case new_n p of Some v \<Rightarrow> if v = 0 then 40 else v | None \<Rightarrow> 40),
                param_gamma = (case new_gamma p of Some v \<Rightarrow> if v = 0 then 1.0 else v | None \<Rightarrow> 1.0),
                param_beta0 = (case new_beta0 p of Some v \<Rightarrow> if v = 0 then 1.0 else v | None \<Rightarrow> 1.0),
                param_alpha = (case new_alpha p of Some v \<Rightarrow> if v = 0 then 0.2 else v | None \<Rightarrow> 0.2),
                param_functionKey =
                  (case new_functionKey p of Some v \<Rightarrow> if v = [] then ''michalewicz'' else v
                   | None \<Rightarrow> ''michalewicz'') \<rparr>;
         s = \<lparr> params = ps, generation = 0, fireflies = [], bestFirefly = None,
               algObjectiveFunction = objectiveFunctions (param_functionKey ps) \<rparr>
     in initialize s r0)"

text \<open>
  The inner loop of \<open>step\<close> for the firefly at index \<open>i\<close>, from the index \<open>j\<close> on.
  \<open>firefly\<close> is the object at index \<open>i\<close> of the array, so a move is an update of the array
  at \<open>i\<close>, and the next comparison reads the moved firefly.
\<close>

function stepInner ::
  "nat \<Rightarrow> nat \<Rightarrow> real \<Rightarrow> real \<Rightarrow> real \<Rightarrow> domain \<Rightarrow> firefly list \<Rightarrow> bool \<Rightarrow> rand
    \<Rightarrow> js_error option \<times> firefly list \<times> bool \<times> rand" where
  "stepInner i j beta0 gamma alpha d fs moved r0 =
    (if j < length fs then
       (if i = j then stepInner i (j + 1) beta0 gamma alpha d fs moved r0
        else
          (let firefly = fs ! i;
               other = fs ! j
           in if fvalue other < fvalue firefly then
                (case moveTowards firefly other beta0 gamma alpha d r0 of
                   (Some e, f', r1) \<Rightarrow> (Some e, fs[i := f'], moved, r1)
                 | (None, f', r1) \<Rightarrow>
                     stepInner i (j + 1) beta0 gamma alpha d (fs[i := f']) True r1)
              else stepInner i (j + 1) beta0 gamma alpha d fs moved r0))
     else (None, fs, moved, r0))"
  by pat_completeness auto
termination
  by (relation "measure (\<lambda>(i, j, beta0, gamma, alpha, d, fs, moved, r0). length fs - j)") auto

declare stepInner.simps [simp del]

lemma length_stepInner:
  "length (fst (snd (stepInner i j beta0 gamma alpha d fs moved r0))) = length fs"
proof (induction i j beta0 gamma alpha d fs moved r0 rule: stepInner.induct)
  case (1 i j beta0 gamma alpha d fs moved r0)
  show ?case
    using "1.IH"
    by (subst stepInner.simps) (auto simp: Let_def split: prod.splits option.splits)
qed

lemma stepInner_length:
  "stepInner i j beta0 gamma alpha d fs moved r0 = (e, fs1, m, r1) \<Longrightarrow> length fs1 = length fs"
  using length_stepInner [of i j beta0 gamma alpha d fs moved r0] by simp

text \<open>The outer loop of \<open>step\<close>, from the index \<open>i\<close> on.\<close>

function stepOuter ::
  "nat \<Rightarrow> real \<Rightarrow> real \<Rightarrow> real \<Rightarrow> domain \<Rightarrow> firefly list \<Rightarrow> rand
    \<Rightarrow> js_error option \<times> firefly list \<times> rand" where
  "stepOuter i beta0 gamma alpha d fs r0 =
    (if i < length fs then
       (case stepInner i 0 beta0 gamma alpha d fs False r0 of
          (Some e, fs1, moved, r1) \<Rightarrow> (Some e, fs1, r1)
        | (None, fs1, moved, r1) \<Rightarrow>
            (if \<not> moved then
               (case randomWalk (fs1 ! i) (alpha * 0.1) d r1 of
                  (Some e, f', r2) \<Rightarrow> (Some e, fs1[i := f'], r2)
                | (None, f', r2) \<Rightarrow> stepOuter (i + 1) beta0 gamma alpha d (fs1[i := f']) r2)
             else stepOuter (i + 1) beta0 gamma alpha d fs1 r1))
     else (None, fs, r0))"
  by pat_completeness auto
termination
  by (relation "measure (\<lambda>(i, beta0, gamma, alpha, d, fs, r0). length fs - i)")
    (auto dest!: stepInner_length [OF sym])

declare stepOuter.simps [simp del]

text \<open>
  \<open>step\<close>. The array \<open>sorted\<close> that the source builds first is a copy that is never read
  again; it is left out.
\<close>

definition step :: "algorithm \<Rightarrow> rand \<Rightarrow> js_error option \<times> algorithm \<times> rand" where
  "step s r0 =
    (let gamma = param_gamma (params s);
         beta0 = param_beta0 (params s);
         alpha = param_alpha (params s)
     in case algObjectiveFunction s of
          None \<Rightarrow> (Some TypeError, s, r0)
        | Some obj \<Rightarrow>
            (case stepOuter 0 beta0 gamma alpha (domain obj) (fireflies s) r0 of
               (Some e, fs, r1) \<Rightarrow> (Some e, s\<lparr> fireflies := fs \<rparr>, r1)
             | (None, fs, r1) \<Rightarrow>
                 updateBest (s\<lparr> fireflies := fs, generation := generation s + 1 \<rparr>) r1))"

text \<open>
  A run of \<open>k\<close> calls of \<open>step\<close>, one after the other on the same object; a caller that
  catches an exception goes on calling.
\<close>

fun steps :: "nat \<Rightarrow> algorithm \<Rightarrow> rand \<Rightarrow> algorithm \<times> rand" where
  "steps 0 s r0 = (s, r0)"
| "steps (Suc k) s r0 = (case step s r0 of (e, s1, r1) \<Rightarrow> steps k s1 r1)"

text \<open>The \<open>while\<close> loop of \<open>adjustPopulation\<close>.\<close>

function growLoop ::
  "int \<Rightarrow> objective_function option \<Rightarrow> domain \<Rightarrow> firefly list \<Rightarrow> rand
    \<Rightarrow> js_error option \<times> firefly list \<times> rand" where
  "growLoop newN objf d fs r0 =
    (if int (length fs) < newN then
       (let (u1, r1) = random r0;
            x = xMin d + u1 * (xMax d - xMin d);
            (u2, r2) = random r1;
            y = yMin d + u2 * (yMax d - yMin d)
        in case newFirefly x y objf r2 of
             (Inl e, r3) \<Rightarrow> (Some e, fs, r3)
           | (Inr firefly, r3) \<Rightarrow> growLoop newN objf d (fs @ [firefly]) r3)
     else (None, fs, r0))"
  by pat_completeness auto
termination
  by (relation "measure (\<lambda>(newN, objf, d, fs, r0). nat (newN - int (length fs)))") auto

declare growLoop.simps [simp del]

text \<open>
  \<open>Array.prototype.slice(0, end)\<close>: a negative \<open>end\<close> counts from the end of the array.
\<close>

definition slice0 :: "'a list \<Rightarrow> int \<Rightarrow> 'a list" where
  "slice0 xs e = (if e < 0 then take (nat (int (length xs) + e)) xs else take (nat e) xs)"

text \<open>
  \<open>adjustPopulation\<close>. \<open>Array.prototype.sort\<close> is stable and sorts in place by the
  comparator \<open>a.value - b.value\<close>, which \<open>sort_key\<close> does on the reals.
\<close>

definition adjustPopulation ::
  "algorithm \<Rightarrow> int \<Rightarrow> rand \<Rightarrow> js_error option \<times> algorithm \<times> rand" where
  "adjustPopulation s newN r0 =
    (case algObjectiveFunction s of
       None \<Rightarrow> (Some TypeError, s, r0)
     | Some obj \<Rightarrow>
         (if newN > int (length (fireflies s)) then
            (case growLoop newN (algObjectiveFunction s) (domain obj) (fireflies s) r0 of
               (e, fs, r1) \<Rightarrow> (e, s\<lparr> fireflies := fs \<rparr>, r1))
          else if newN < int (length (fireflies s)) then
            (None, s\<lparr> fireflies := slice0 (sort_key fvalue (fireflies s)) newN \<rparr>, r0)
          else (None, s, r0)))"

text \<open>
  The loop of \<open>setParams\<close> over the fireflies. With an \<open>undefined\<close> objective function the
  first firefly has lost its reference when the read of \<open>.domain\<close> throws.
\<close>

fun rebindLoop ::
  "objective_function option \<Rightarrow> firefly list \<Rightarrow> js_error option \<times> firefly list" where
  "rebindLoop objf [] = (None, [])"
| "rebindLoop objf (f # fs) =
    (let f1 = f\<lparr> objectiveFunction := objf \<rparr>
     in case objf of
          None \<Rightarrow> (Some TypeError, f1 # fs)
        | Some obj \<Rightarrow>
            (let f2 = clampToDomain f1 (domain obj)
             in case evaluate f2 of
                  Inl e \<Rightarrow> (Some e, f2 # fs)
                | Inr f3 \<Rightarrow> (case rebindLoop objf fs of (e, fs') \<Rightarrow> (e, f3 # fs'))))"

text \<open>The object spread \<open>{ ...this.params, ...newParams }\<close>.\<close>

definition mergeParams :: "params \<Rightarrow> new_params \<Rightarrow> params" where
  "mergeParams p np =
    \<lparr> param_n = (case new_n np of Some v \<Rightarrow> v | None \<Rightarrow> param_n p),
      param_gamma = (case new_gamma np of Some v \<Rightarrow> v | None \<Rightarrow> param_gamma p),
      param_beta0 = (case new_beta0 np of Some v \<Rightarrow> v | None \<Rightarrow> param_beta0 p),
      param_alpha = (case new_alpha np of Some v \<Rightarrow> v | None \<Rightarrow> param_alpha p),
      param_functionKey =
        (case new_functionKey np of Some v \<Rightarrow> v | None \<Rightarrow> param_functionKey p) \<rparr>"

text \<open>
  \<open>setParams\<close>. \<open>newParams.functionKey && ...\<close> and \<open>newParams.n && ...\<close> are false for an
  absent field and for a falsy one (the empty string, \<open>0\<close>).
\<close>

definition setParams ::
  "algorithm \<Rightarrow> new_params \<Rightarrow> rand \<Rightarrow> js_error option \<times> algorithm \<times> rand" where
  "setParams s newParams r0 =
    (let prevN = param_n (params s);
         prevFunc = param_functionKey (params s);
         s1 = s\<lparr> params := mergeParams (params s) newParams \<rparr>;
         (e2, s2, r2) =
           (if (case new_functionKey newParams of
                  None \<Rightarrow> False
                | Some k \<Rightarrow> k \<noteq> [] \<and> k \<noteq> prevFunc) then
              (let s' = s1\<lparr> algObjectiveFunction :=
                             objectiveFunctions (param_functionKey (params s1)) \<rparr>
               in case rebindLoop (algObjectiveFunction s') (fireflies s') of
                    (Some e, fs) \<Rightarrow> (Some e, s'\<lparr> fireflies := fs \<rparr>, r0)
                  | (None, fs) \<Rightarrow> updateBest (s'\<lparr> fireflies := fs, bestFirefly := None \<rparr>) r0)
            else (None, s1, r0))
     in case e2 of
          Some e \<Rightarrow> (Some e, s2, r2)
        | None \<Rightarrow>
            (if (case new_n newParams of None \<Rightarrow> False | Some k \<Rightarrow> k \<noteq> 0 \<and> k \<noteq> prevN)
             then adjustPopulation s2 (case new_n newParams of Some k \<Rightarrow> k | None \<Rightarrow> 0) r2
             else (None, s2, r2)))"

record stats =
  stat_generation :: nat
  bestValue :: real
  bestX :: real
  bestY :: real
  populationSize :: nat

definition getStats :: "algorithm \<Rightarrow> stats option" where
  "getStats s =
    (case bestFirefly s of
       None \<Rightarrow> None
     | Some b \<Rightarrow>
         Some \<lparr> stat_generation = generation s, bestValue = fvalue b,
                bestX = pos_x b, bestY = pos_y b,
                populationSize = length (fireflies s) \<rparr>)"

definition clearTrails :: "algorithm \<Rightarrow> algorithm" where
  "clearTrails s = s\<lparr> fireflies := map clearTrail (fireflies s) \<rparr>"

section \<open>firefly-algorithm.js: the flash update of Renderer.render\<close>

text \<open>
  The first loop of \<open>render\<close>, from the index \<open>i\<close> on: the response check of every female
  firefly, each on the array as the checks before it have left it.
\<close>

lemma length_checkForNearbyFlash:
  "length (fst (checkForNearbyFlash i fs d r0)) = length fs"
  by (simp add: checkForNearbyFlash_def Let_def split: prod.splits)

lemma checkForNearbyFlash_length:
  "checkForNearbyFlash i fs d r0 = (fs1, r1) \<Longrightarrow> length fs1 = length fs"
  using length_checkForNearbyFlash [of i fs d r0] by simp

function checkLoop :: "nat \<Rightarrow> firefly list \<Rightarrow> domain \<Rightarrow> rand \<Rightarrow> firefly list \<times> rand" where
  "checkLoop i fs d r0 =
    (if i < length fs then
       (if gender (fs ! i) = Female then
          (case checkForNearbyFlash i fs d r0 of (fs1, r1) \<Rightarrow> checkLoop (i + 1) fs1 d r1)
        else checkLoop (i + 1) fs d r0)
     else (fs, r0))"
  by pat_completeness auto
termination
  by (relation "measure (\<lambda>(i, fs, d, r0). length fs - i)")
    (auto dest!: checkForNearbyFlash_length [OF sym])

declare checkLoop.simps [simp del]

text \<open>
  The part of \<open>render\<close> that changes the simulation: the response checks, then
  \<open>updateFlash\<close> on every firefly. The scaled time step \<open>deltaTime\<close> is a parameter; the
  drawing that follows only reads the fireflies.
\<close>

definition render :: "algorithm \<Rightarrow> real \<Rightarrow> rand \<Rightarrow> js_error option \<times> algorithm \<times> rand" where
  "render s deltaTime r0 =
    (case algObjectiveFunction s of
       None \<Rightarrow> (Some TypeError, s, r0)
     | Some obj \<Rightarrow>
         (case checkLoop 0 (fireflies s) (domain obj) r0 of
            (fs1, r1) \<Rightarrow>
              (None, s\<lparr> fireflies := map (\<lambda>firefly. updateFlash firefly deltaTime) fs1 \<rparr>, r1)))"

section \<open>Sample objects\<close>

text \<open>A flashing male under the sphere function, at \<open>(3, 4)\<close>, with two trail points.\<close>

definition flashing_firefly :: firefly where
  "flashing_firefly =
    \<lparr> pos_x = 3, pos_y = 4, objectiveFunction = Some sphere, brightness = - 25,
      trail = [(1, 1), (2, 2)], maxTrailLength = 20, gender = Male,
      flashPhase = 0, flashInterval = 2000, flashDuration = 200,
      isFlashing = True, flashIntensity = 0,
      responseDelay = 0, isResponding = False, fvalue = 25 \<rparr>"

section \<open>The flash envelope\<close>

text \<open>
  The firefly after the response countdown and the phase update of \<open>updateFlash\<close>, before
  the envelope is applied.
\<close>

definition flashTiming :: "firefly \<Rightarrow> real \<Rightarrow> firefly" where
  "flashTiming f deltaTime =
    (let f1 =
           (if isResponding f \<and> responseDelay f > 0 then
              (let g = f\<lparr> responseDelay := responseDelay f - deltaTime \<rparr>
               in if responseDelay g \<le> 0
                  then g\<lparr> isFlashing := True, flashPhase := 0, responseDelay := 0 \<rparr>
                  else g)
            else f)
     in if \<not> isResponding f1 \<or> responseDelay f1 \<le> 0 then
          (let g = f1\<lparr> flashPhase := flashPhase f1 + deltaTime \<rparr>
           in if flashPhase g \<ge> flashInterval g
              then g\<lparr> isFlashing := True, flashPhase := 0 \<rparr>
              else g)
        else f1)"

lemma exp_neg_09_bounds: "\<bar>exp (- (9/10) :: real) - 407/1000\<bar> < 1/1000"
proof -
  obtain t :: real where t: "\<bar>t\<bar> \<le> \<bar>- (9/10) :: real\<bar>"
    and e: "exp (- (9/10) :: real) = (\<Sum>m<8. ((- (9/10)) ^ m) / fact m) + (exp t / fact 8) * (- (9/10)) ^ 8"
    using Maclaurin_exp_le [of "- (9/10)" 8] by blast
  have "t \<le> 1" using t by simp
  then have "exp t \<le> exp 1" by simp
  also have "\<dots> \<le> 3" by (rule exp_le)
  finally have up: "exp t \<le> 3" .
  have lo: "0 < exp t" by simp
  have s: "(\<Sum>m<8. ((- (9/10 :: real)) ^ m) / fact m) = 2276735789 / 5600000000"
    by (simp add: lessThan_nat_numeral fact_numeral power_divide)
  have r: "(exp t / fact 8) * (- (9/10 :: real)) ^ 8 = exp t * (43046721 / 4032000000000)"
    by (simp add: fact_numeral power_divide)
  have fin: "\<bar>2276735789 / 5600000000 + y * (43046721 / 4032000000000) - 407 / 1000\<bar> < 1 / 1000"
    if "0 < y" "y \<le> 3" for y :: real
    using that by arith
  show ?thesis
    unfolding e s r by (rule fin [OF lo up])
qed

lemma updateFlash_staged:
  "updateFlash f deltaTime =
    (let f2 = flashTiming f deltaTime
     in if isFlashing f2 then
          (let t = flashPhase f2 / flashDuration f2
           in if t < 0.2 then f2\<lparr> flashIntensity := t / 0.2 \<rparr>
              else if t < 1.0 then f2\<lparr> flashIntensity := exp (- 3 * (t - 0.2)) \<rparr>
              else f2\<lparr> isFlashing := False, flashIntensity := 0, isResponding := False \<rparr>)
        else f2)"
  by (simp only: updateFlash_def flashTiming_def Let_def)

lemma flashTiming_keeps_flashing: "isFlashing f \<Longrightarrow> isFlashing (flashTiming f deltaTime)"
  by (simp add: flashTiming_def Let_def)

lemma flashTiming_keeps_duration: "flashDuration (flashTiming f deltaTime) = flashDuration f"
  by (simp add: flashTiming_def Let_def)

lemma updateFlash_keeps_duration: "flashDuration (updateFlash f deltaTime) = flashDuration f"
  by (simp add: updateFlash_staged flashTiming_keeps_duration Let_def)

lemma updateFlash_phase: "flashPhase (updateFlash f deltaTime) = flashPhase (flashTiming f deltaTime)"
  by (simp add: updateFlash_staged Let_def)

lemma flashTiming_plain:
  assumes "\<not> (isResponding f \<and> 0 < responseDelay f)"
    and "flashPhase f + deltaTime < flashInterval f"
  shows "flashTiming f deltaTime = f\<lparr> flashPhase := flashPhase f + deltaTime \<rparr>"
  using assms by (auto simp: flashTiming_def Let_def)

lemma updateFlash_envelope_general:
  assumes "isFlashing f"
  shows "(let f' = updateFlash f deltaTime; t = flashPhase f' / flashDuration f'
       in (t < 0.2 \<longrightarrow> isFlashing f' \<and> flashIntensity f' = t / 0.2) \<and>
          (0.2 \<le> t \<and> t < 1.0 \<longrightarrow> isFlashing f' \<and> flashIntensity f' = exp (- 3 * (t - 0.2))) \<and>
          (1.0 \<le> t \<longrightarrow> \<not> isFlashing f' \<and> flashIntensity f' = 0))"
proof -
  define f2 where "f2 = flashTiming f deltaTime"
  define t where "t = flashPhase f2 / flashDuration f2"
  have fl: "isFlashing f2"
    unfolding f2_def using assms by (rule flashTiming_keeps_flashing)
  have u: "updateFlash f deltaTime =
      (if t < 0.2 then f2\<lparr> flashIntensity := t / 0.2 \<rparr>
       else if t < 1.0 then f2\<lparr> flashIntensity := exp (- 3 * (t - 0.2)) \<rparr>
       else f2\<lparr> isFlashing := False, flashIntensity := 0, isResponding := False \<rparr>)"
    unfolding updateFlash_staged Let_def f2_def [symmetric] t_def [symmetric]
    using fl by (rule if_P)
  have ph: "flashPhase (updateFlash f deltaTime) / flashDuration (updateFlash f deltaTime) = t"
    unfolding updateFlash_phase updateFlash_keeps_duration t_def f2_def
    by (simp only: flashTiming_keeps_duration)
  have a: "t < 0.2 \<longrightarrow> isFlashing (updateFlash f deltaTime) \<and>
      flashIntensity (updateFlash f deltaTime) = t / 0.2"
    using fl by (simp add: u)
  have b: "0.2 \<le> t \<and> t < 1.0 \<longrightarrow> isFlashing (updateFlash f deltaTime) \<and>
      flashIntensity (updateFlash f deltaTime) = exp (- 3 * (t - 0.2))"
    using fl by (simp add: u)
  have c: "1.0 \<le> t \<longrightarrow> \<not> isFlashing (updateFlash f deltaTime) \<and>
      flashIntensity (updateFlash f deltaTime) = 0"
    by (simp add: u)
  show ?thesis
    unfolding Let_def ph using a b c by blast
qed

lemma updateFlash_worked_example:
  assumes "isFlashing f" and "flashDuration f = 200" and "flashPhase f = 0"
    and "100 < flashInterval f" and "\<not> (isResponding f \<and> 0 < responseDelay f)"
  shows "(let f1 = updateFlash f 40; f2 = updateFlash f1 60
       in flashPhase f1 / flashDuration f1 = 0.2 \<and> isFlashing f1 \<and> flashIntensity f1 = 1 \<and>
          flashPhase f2 = 100 \<and> flashPhase f2 / flashDuration f2 = 0.5 \<and> isFlashing f2 \<and>
          flashIntensity f2 = exp (- 3 * 0.3) \<and> \<bar>flashIntensity f2 - 0.407\<bar> < 0.001)"
proof -
  have t1: "flashTiming f 40 = f\<lparr> flashPhase := 40 \<rparr>"
    using assms by (simp add: flashTiming_plain)
  have f1: "updateFlash f 40 = f\<lparr> flashPhase := 40, flashIntensity := 1 \<rparr>"
    using assms by (simp add: updateFlash_staged t1 Let_def)
  have t2: "flashTiming (f\<lparr> flashPhase := 40, flashIntensity := 1 \<rparr>) 60 =
      f\<lparr> flashPhase := 100, flashIntensity := 1 \<rparr>"
    using assms by (simp add: flashTiming_plain)
  have f2: "updateFlash (f\<lparr> flashPhase := 40, flashIntensity := 1 \<rparr>) 60 =
      f\<lparr> flashPhase := 100, flashIntensity := exp (- (9 / 10)) \<rparr>"
    using assms by (simp add: updateFlash_staged t2 Let_def)
  show ?thesis
    using assms exp_neg_09_bounds by (simp add: f1 f2 Let_def)
qed

text \<open>
  Claim C7. A flashing firefly (with a positive duration) has, after \<open>updateFlash\<close>, with
  \<open>t = flashPhase / flashDuration\<close> read after the update: intensity \<open>t / 0.2\<close> when
  \<open>t < 0.2\<close>, intensity \<open>exp (-3 (t - 0.2))\<close> when \<open>0.2 \<le> t < 1\<close>, and for \<open>1 \<le> t\<close> the flash is
  over: \<open>isFlashing\<close> is false and the intensity is \<open>0\<close>. The worked example: with duration
  \<open>200\<close>, phase \<open>0\<close> and the next natural flash more than \<open>100\<close> ms away, \<open>updateFlash(40)\<close>
  gives \<open>t = 0.2\<close> and intensity \<open>1\<close>, and a further \<open>updateFlash(60)\<close> gives phase \<open>100\<close>,
  \<open>t = 0.5\<close> and intensity \<open>exp (-0.9)\<close>, which is \<open>0.407\<close> to three decimals.
\<close>

theorem updateFlash_envelope:
  assumes "isFlashing f" and "0 < flashDuration f"
  shows "(let f' = updateFlash f deltaTime; t = flashPhase f' / flashDuration f'
       in (t < 0.2 \<longrightarrow> isFlashing f' \<and> flashIntensity f' = t / 0.2) \<and>
          (0.2 \<le> t \<and> t < 1.0 \<longrightarrow> isFlashing f' \<and> flashIntensity f' = exp (- 3 * (t - 0.2))) \<and>
          (1.0 \<le> t \<longrightarrow> \<not> isFlashing f' \<and> flashIntensity f' = 0))
    \<and> (flashDuration f = 200 \<and> flashPhase f = 0 \<and> 100 < flashInterval f \<and>
         \<not> (isResponding f \<and> 0 < responseDelay f) \<longrightarrow>
       (let f1 = updateFlash f 40; f2 = updateFlash f1 60
        in flashPhase f1 / flashDuration f1 = 0.2 \<and> isFlashing f1 \<and> flashIntensity f1 = 1 \<and>
           flashPhase f2 = 100 \<and> flashPhase f2 / flashDuration f2 = 0.5 \<and> isFlashing f2 \<and>
           flashIntensity f2 = exp (- 3 * 0.3) \<and> \<bar>flashIntensity f2 - 0.407\<bar> < 0.001))"
proof (rule conjI)
  show "(let f' = updateFlash f deltaTime; t = flashPhase f' / flashDuration f'
       in (t < 0.2 \<longrightarrow> isFlashing f' \<and> flashIntensity f' = t / 0.2) \<and>
          (0.2 \<le> t \<and> t < 1.0 \<longrightarrow> isFlashing f' \<and> flashIntensity f' = exp (- 3 * (t - 0.2))) \<and>
          (1.0 \<le> t \<longrightarrow> \<not> isFlashing f' \<and> flashIntensity f' = 0))"
    using assms(1) by (rule updateFlash_envelope_general)
next
  show "flashDuration f = 200 \<and> flashPhase f = 0 \<and> 100 < flashInterval f \<and>
         \<not> (isResponding f \<and> 0 < responseDelay f) \<longrightarrow>
       (let f1 = updateFlash f 40; f2 = updateFlash f1 60
        in flashPhase f1 / flashDuration f1 = 0.2 \<and> isFlashing f1 \<and> flashIntensity f1 = 1 \<and>
           flashPhase f2 = 100 \<and> flashPhase f2 / flashDuration f2 = 0.5 \<and> isFlashing f2 \<and>
           flashIntensity f2 = exp (- 3 * 0.3) \<and> \<bar>flashIntensity f2 - 0.407\<bar> < 0.001)"
    using updateFlash_worked_example [OF assms(1)] by blast
qed

theorem updateFlash_envelope_witness:
  "isFlashing flashing_firefly \<and> 0 < flashDuration flashing_firefly \<and>
   flashDuration flashing_firefly = 200 \<and> flashPhase flashing_firefly = 0 \<and>
   100 < flashInterval flashing_firefly \<and>
   \<not> (isResponding flashing_firefly \<and> 0 < responseDelay flashing_firefly) \<and>
   flashPhase (updateFlash flashing_firefly 20) / 200 < 0.2 \<and>
   flashIntensity (updateFlash flashing_firefly 20) = 1 / 2 \<and>
   flashPhase (updateFlash flashing_firefly 40) / 200 = 0.2 \<and>
   flashIntensity (updateFlash flashing_firefly 40) = 1 \<and>
   flashIntensity (updateFlash (updateFlash flashing_firefly 40) 60) = exp (- 3 * 0.3) \<and>
   1 \<le> flashPhase (updateFlash flashing_firefly 200) / 200 \<and>
   \<not> isFlashing (updateFlash flashing_firefly 200) \<and>
   flashIntensity (updateFlash flashing_firefly 200) = 0"
proof -
  have h: "isFlashing flashing_firefly" "0 < flashDuration flashing_firefly"
    by (simp_all add: flashing_firefly_def)
  have e: "flashDuration flashing_firefly = 200 \<and> flashPhase flashing_firefly = 0 \<and>
      100 < flashInterval flashing_firefly \<and>
      \<not> (isResponding flashing_firefly \<and> 0 < responseDelay flashing_firefly)"
    by (simp add: flashing_firefly_def)
  have p: "flashPhase (updateFlash flashing_firefly 20) = 20"
    "flashPhase (updateFlash flashing_firefly 200) = 200"
    by (simp_all add: updateFlash_phase flashTiming_plain flashing_firefly_def)
  have d: "flashDuration (updateFlash flashing_firefly x) = 200" for x
    by (simp add: updateFlash_keeps_duration flashing_firefly_def)
  show ?thesis
    using updateFlash_envelope [OF h, of 20] updateFlash_envelope [OF h, of 200]
      updateFlash_envelope [OF h, of 40] e h
    by (simp add: Let_def p d)
qed

section \<open>Cloning and the best firefly\<close>

lemma clone_Inr:
  assumes "clone f r = (Inr c, r')"
  shows "pos_x c = pos_x f \<and> pos_y c = pos_y f \<and> fvalue c = fvalue f \<and>
    brightness c = brightness f \<and> gender c = gender f \<and>
    flashPhase c = flashPhase f \<and> flashInterval c = flashInterval f \<and>
    flashDuration c = flashDuration f \<and> isFlashing c = isFlashing f \<and>
    flashIntensity c = flashIntensity f \<and> responseDelay c = responseDelay f \<and>
    isResponding c = isResponding f \<and> objectiveFunction c = objectiveFunction f \<and>
    maxTrailLength c = 20 \<and> trail c = []"
  using assms
  by (auto simp: clone_def newFirefly_def random_def evaluate_def Let_def
      split: option.splits)

lemma clone_defined:
  assumes "objectiveFunction f = Some obj"
  shows "\<exists>c. clone f r = (Inr c, \<lambda>k. r (Suc (Suc (Suc (Suc k)))))"
  using assms
  by (simp add: clone_def newFirefly_def random_def evaluate_def Let_def)

lemma lowestValue_member: "lowestValue f0 fs \<in> insert f0 (set fs)"
  unfolding lowestValue_def
  by (induction fs arbitrary: f0) auto

lemma lowestValue_le_start: "fvalue (lowestValue f0 fs) \<le> fvalue f0"
  unfolding lowestValue_def
proof (induction fs arbitrary: f0)
  case Nil
  show ?case by simp
next
  case (Cons a fs)
  show ?case
    using Cons.IH [of a] Cons.IH [of f0] by auto
qed

lemma lowestValue_least: "g \<in> set fs \<Longrightarrow> fvalue (lowestValue f0 fs) \<le> fvalue g"
proof (induction fs arbitrary: f0)
  case Nil
  then show ?case by simp
next
  case (Cons a fs)
  let ?b = "if fvalue a < fvalue f0 then a else f0"
  have step: "lowestValue f0 (a # fs) = lowestValue ?b fs"
    by (simp add: lowestValue_def)
  show ?case
  proof (cases "g = a")
    case True
    have "fvalue (lowestValue ?b fs) \<le> fvalue ?b"
      by (rule lowestValue_le_start)
    also have "\<dots> \<le> fvalue a" by simp
    finally show ?thesis using True step by simp
  next
    case False
    with Cons.prems have "g \<in> set fs" by simp
    then show ?thesis using Cons.IH [of ?b] step by simp
  qed
qed

lemma updateBest_frame:
  assumes "updateBest s r = (e, s', r')"
  shows "fireflies s' = fireflies s \<and> generation s' = generation s \<and> params s' = params s \<and>
    algObjectiveFunction s' = algObjectiveFunction s"
  using assms
  by (auto simp: updateBest_def Let_def split: list.splits if_splits prod.splits sum.splits)

lemma updateBest_Cons:
  assumes "fireflies s = f0 # rest"
  shows "updateBest s r =
    (if (case bestFirefly s of None \<Rightarrow> True
         | Some b \<Rightarrow> fvalue (lowestValue f0 (f0 # rest)) < fvalue b) then
       (case clone (lowestValue f0 (f0 # rest)) r of
          (Inl e, r1) \<Rightarrow> (Some e, s, r1)
        | (Inr c, r1) \<Rightarrow> (None, s\<lparr> bestFirefly := Some c \<rparr>, r1))
     else (None, s, r))"
  using assms by (simp add: updateBest_def Let_def)

lemma updateBest_best:
  assumes "updateBest s r = (e, s', r')"
  shows "bestFirefly s' = bestFirefly s \<or>
    (\<exists>m c. m \<in> set (fireflies s) \<and> (\<forall>g \<in> set (fireflies s). fvalue m \<le> fvalue g) \<and>
       clone m r = (Inr c, r') \<and> bestFirefly s' = Some c \<and>
       (\<forall>b. bestFirefly s = Some b \<longrightarrow> fvalue m < fvalue b))"
proof (cases "fireflies s")
  case Nil
  with assms show ?thesis by (simp add: updateBest_def)
next
  case (Cons f0 rest)
  define m where "m = lowestValue f0 (f0 # rest)"
  have mem: "m \<in> set (fireflies s)"
    using lowestValue_member [of f0 "f0 # rest"] Cons by (auto simp: m_def)
  have least: "\<forall>g \<in> set (fireflies s). fvalue m \<le> fvalue g"
    unfolding Cons m_def using lowestValue_least by blast
  note ub = updateBest_Cons [OF Cons, of r, folded m_def]
  show ?thesis
  proof (cases "case bestFirefly s of None \<Rightarrow> True | Some b \<Rightarrow> fvalue m < fvalue b")
    case False
    with assms ub show ?thesis by simp
  next
    case True
    then have imp: "\<forall>b. bestFirefly s = Some b \<longrightarrow> fvalue m < fvalue b"
      by (simp split: option.splits)
    show ?thesis
    proof (cases "clone m r")
      case (Pair res r1)
      show ?thesis
      proof (cases res)
        case (Inl err)
        with assms ub True Pair show ?thesis by simp
      next
        case (Inr c)
        with assms ub True Pair have "bestFirefly s' = Some c" "r' = r1"
          by auto
        with mem least imp Pair Inr show ?thesis by blast
      qed
    qed
  qed
qed

lemma updateBest_monotone:
  assumes "updateBest s r = (e, s', r')" and "bestFirefly s = Some b"
  shows "\<exists>b'. bestFirefly s' = Some b' \<and> fvalue b' \<le> fvalue b"
  using updateBest_best [OF assms(1)] assms(2) clone_Inr by fastforce

lemma updateBest_from_none:
  assumes "bestFirefly s = None" and "fireflies s \<noteq> []"
    and "\<forall>f \<in> set (fireflies s). objectiveFunction f \<noteq> None"
  shows "\<exists>m c. m \<in> set (fireflies s) \<and> (\<forall>g \<in> set (fireflies s). fvalue m \<le> fvalue g) \<and>
    clone m r = (Inr c, \<lambda>k. r (Suc (Suc (Suc (Suc k))))) \<and>
    updateBest s r = (None, s\<lparr> bestFirefly := Some c \<rparr>, \<lambda>k. r (Suc (Suc (Suc (Suc k)))))"
proof -
  obtain f0 rest where Cons: "fireflies s = f0 # rest"
    using assms(2) by (cases "fireflies s") auto
  define m where "m = lowestValue f0 (f0 # rest)"
  have mem: "m \<in> set (fireflies s)"
    using lowestValue_member [of f0 "f0 # rest"] Cons by (auto simp: m_def)
  have least: "\<forall>g \<in> set (fireflies s). fvalue m \<le> fvalue g"
    unfolding Cons m_def using lowestValue_least by blast
  note ub = updateBest_Cons [OF Cons, of r, folded m_def]
  from mem assms(3) obtain obj where "objectiveFunction m = Some obj" by auto
  then obtain c where c: "clone m r = (Inr c, \<lambda>k. r (Suc (Suc (Suc (Suc k)))))"
    using clone_defined by blast
  then have "updateBest s r = (None, s\<lparr> bestFirefly := Some c \<rparr>, \<lambda>k. r (Suc (Suc (Suc (Suc k)))))"
    using ub assms(1) by simp
  with mem least c show ?thesis by blast
qed

text \<open>
  Claim C10. The clone of a firefly (whose objective function is defined, as the constructor
  that \<open>clone\<close> calls evaluates it) has the position, value, brightness, gender and every
  flash-timing field of the original and an empty trail, whatever the trail of the original
  holds; so a \<open>bestFirefly\<close> that \<open>updateBest\<close> has just stored has an empty trail.
\<close>

theorem clone_copies_fields_without_trail:
  assumes "objectiveFunction f = Some obj"
  shows "(\<exists>c. fst (clone f r) = Inr c \<and>
      pos_x c = pos_x f \<and> pos_y c = pos_y f \<and> fvalue c = fvalue f \<and>
      brightness c = brightness f \<and> gender c = gender f \<and>
      flashPhase c = flashPhase f \<and> flashInterval c = flashInterval f \<and>
      flashDuration c = flashDuration f \<and> isFlashing c = isFlashing f \<and>
      flashIntensity c = flashIntensity f \<and> responseDelay c = responseDelay f \<and>
      isResponding c = isResponding f \<and> trail c = [])
    \<and> (\<forall>s r0 e s' r1. updateBest s r0 = (e, s', r1) \<and> bestFirefly s' \<noteq> bestFirefly s
          \<longrightarrow> (\<exists>c. bestFirefly s' = Some c \<and> trail c = []))"
proof (intro conjI allI impI)
  obtain c where c: "clone f r = (Inr c, \<lambda>k. r (Suc (Suc (Suc (Suc k)))))"
    using clone_defined [OF assms] by blast
  from clone_Inr [OF c] c
  show "\<exists>c. fst (clone f r) = Inr c \<and>
      pos_x c = pos_x f \<and> pos_y c = pos_y f \<and> fvalue c = fvalue f \<and>
      brightness c = brightness f \<and> gender c = gender f \<and>
      flashPhase c = flashPhase f \<and> flashInterval c = flashInterval f \<and>
      flashDuration c = flashDuration f \<and> isFlashing c = isFlashing f \<and>
      flashIntensity c = flashIntensity f \<and> responseDelay c = responseDelay f \<and>
      isResponding c = isResponding f \<and> trail c = []"
    by simp
next
  fix s r0 e s' r1
  assume "updateBest s r0 = (e, s', r1) \<and> bestFirefly s' \<noteq> bestFirefly s"
  then obtain m c r2 where "clone m r0 = (Inr c, r2)" "bestFirefly s' = Some c"
    using updateBest_best by blast
  then show "\<exists>c. bestFirefly s' = Some c \<and> trail c = []"
    using clone_Inr by blast
qed

theorem clone_copies_fields_without_trail_witness:
  "objectiveFunction flashing_firefly = Some sphere \<and> trail flashing_firefly \<noteq> [] \<and>
   (\<exists>c. fst (clone flashing_firefly (\<lambda>k. 1 / 2)) = Inr c \<and> pos_x c = 3 \<and> pos_y c = 4 \<and>
      fvalue c = 25 \<and> gender c = Male \<and> flashInterval c = 2000 \<and> isFlashing c \<and> trail c = [])"
proof -
  have h: "objectiveFunction flashing_firefly = Some sphere"
    by (simp add: flashing_firefly_def)
  have t: "trail flashing_firefly \<noteq> []"
    by (simp add: flashing_firefly_def)
  obtain c where "fst (clone flashing_firefly (\<lambda>k. 1 / 2)) = Inr c"
    "pos_x c = pos_x flashing_firefly" "pos_y c = pos_y flashing_firefly"
    "fvalue c = fvalue flashing_firefly" "gender c = gender flashing_firefly"
    "flashInterval c = flashInterval flashing_firefly" "isFlashing c = isFlashing flashing_firefly"
    "trail c = []"
    using clone_copies_fields_without_trail [OF h, of "\<lambda>k. 1 / 2"] by blast
  then show ?thesis
    using h t by (simp add: flashing_firefly_def)
qed

section \<open>The best firefly across steps\<close>

lemma step_best:
  assumes "step s r = (e, s', r')"
  shows "bestFirefly s' = bestFirefly s \<or>
    (\<exists>m c r0. m \<in> set (fireflies s') \<and> (\<forall>g \<in> set (fireflies s'). fvalue m \<le> fvalue g) \<and>
       clone m r0 = (Inr c, r') \<and> bestFirefly s' = Some c \<and>
       (\<forall>b. bestFirefly s = Some b \<longrightarrow> fvalue m < fvalue b))"
proof (cases "algObjectiveFunction s")
  case None
  with assms show ?thesis by (simp add: step_def)
next
  case (Some obj)
  obtain e1 fs r1 where so: "stepOuter 0 (param_beta0 (params s)) (param_gamma (params s))
      (param_alpha (params s)) (domain obj) (fireflies s) r = (e1, fs, r1)"
    by (metis prod_cases3)
  show ?thesis
  proof (cases e1)
    case (Some err)
    with assms \<open>algObjectiveFunction s = Some obj\<close> so show ?thesis
      by (auto simp: step_def Let_def)
  next
    case None
    let ?s1 = "s\<lparr> fireflies := fs, generation := generation s + 1 \<rparr>"
    from None assms \<open>algObjectiveFunction s = Some obj\<close> so
    have ub: "updateBest ?s1 r1 = (e, s', r')"
      by (simp add: step_def Let_def)
    from updateBest_frame [OF ub] have fr: "fireflies s' = fs" by simp
    from updateBest_best [OF ub] show ?thesis
      unfolding fr by auto
  qed
qed

lemma step_monotone:
  assumes "step s r = (e, s', r')" and "bestFirefly s = Some b"
  shows "\<exists>b'. bestFirefly s' = Some b' \<and> fvalue b' \<le> fvalue b"
  using step_best [OF assms(1)] assms(2) clone_Inr by fastforce

lemma steps_monotone:
  assumes "bestFirefly s = Some b"
  shows "\<exists>b'. bestFirefly (fst (steps k s r)) = Some b' \<and> fvalue b' \<le> fvalue b"
  using assms
proof (induction k arbitrary: s r b)
  case 0
  then show ?case by simp
next
  case (Suc k)
  obtain e s1 r1 where st: "step s r = (e, s1, r1)"
    by (metis prod_cases3)
  from step_monotone [OF st Suc.prems] obtain b1 where
    b1: "bestFirefly s1 = Some b1" "fvalue b1 \<le> fvalue b" by blast
  from Suc.IH [OF b1(1), of r1] obtain b' where
    "bestFirefly (fst (steps k s1 r1)) = Some b'" "fvalue b' \<le> fvalue b1" by blast
  with b1 st show ?case by auto
qed

section \<open>A sample swarm and one step of it\<close>

text \<open>
  Two fireflies under the sphere function, with \<open>gamma = 0\<close>, \<open>beta0 = 1\<close>, \<open>alpha = 1\<close> and every
  draw \<open>0\<close>. In one step the first firefly moves towards the second (and past it, to a
  worse value), the second finds no brighter firefly and takes its random walk.
\<close>

definition sample_a :: firefly where
  "sample_a =
    \<lparr> pos_x = 3, pos_y = 4, objectiveFunction = Some sphere, brightness = - 25,
      trail = [], maxTrailLength = 20, gender = Male,
      flashPhase = 100, flashInterval = 2000, flashDuration = 200,
      isFlashing = True, flashIntensity = 3 / 5,
      responseDelay = 0, isResponding = False, fvalue = 25 \<rparr>"

definition sample_b :: firefly where
  "sample_b =
    \<lparr> pos_x = 1, pos_y = 0, objectiveFunction = Some sphere, brightness = - 1,
      trail = [], maxTrailLength = 20, gender = Female,
      flashPhase = 1000, flashInterval = 4000, flashDuration = 200,
      isFlashing = False, flashIntensity = 0,
      responseDelay = 0, isResponding = False, fvalue = 1 \<rparr>"

definition sample_params :: params where
  "sample_params =
    \<lparr> param_n = 2, param_gamma = 0, param_beta0 = 1, param_alpha = 1,
      param_functionKey = ''sphere'' \<rparr>"

definition sample_swarm :: algorithm where
  "sample_swarm =
    \<lparr> params = sample_params, generation = 0, fireflies = [sample_a, sample_b],
      bestFirefly = Some (sample_b\<lparr> gender := Male \<rparr>), algObjectiveFunction = Some sphere \<rparr>"

definition zero_draws :: rand where
  "zero_draws = (\<lambda>k. 0)"

lemma random_zero_draws: "random zero_draws = (0, zero_draws)"
  by (simp add: random_def zero_draws_def)

lemma sample_move:
  "moveTowards sample_a sample_b 1 0 1 (domain sphere) zero_draws =
    (None, sample_a\<lparr> pos_x := - 4, pos_y := - 5, trail := [(3, 4)], fvalue := 41, brightness := - 41 \<rparr>,
     zero_draws)"
  by (simp add: moveTowards_def random_zero_draws addTrailPoint_def clampToDomain_def evaluate_def
      sample_a_def sample_b_def sphere_def Let_def)

lemma sample_walk:
  "randomWalk sample_b (1 / 10) (domain sphere) zero_draws =
    (None, sample_b\<lparr> pos_x := 1 / 2, pos_y := - (1 / 2), trail := [(1, 0)],
       fvalue := 1 / 2, brightness := - (1 / 2) \<rparr>, zero_draws)"
  by (simp add: randomWalk_def random_zero_draws addTrailPoint_def clampToDomain_def evaluate_def
      sample_b_def sphere_def Let_def)

definition sample_a' :: firefly where
  "sample_a' = sample_a\<lparr> pos_x := - 4, pos_y := - 5, trail := [(3, 4)], fvalue := 41, brightness := - 41 \<rparr>"

definition sample_b' :: firefly where
  "sample_b' = sample_b\<lparr> pos_x := 1 / 2, pos_y := - (1 / 2), trail := [(1, 0)],
       fvalue := 1 / 2, brightness := - (1 / 2) \<rparr>"

lemma sample_values:
  "fvalue sample_a = 25" "fvalue sample_b = 1" "fvalue sample_a' = 41" "fvalue sample_b' = 1 / 2"
  by (simp_all add: sample_a_def sample_b_def sample_a'_def sample_b'_def)

lemma sample_inner0:
  "stepInner 0 0 1 0 1 (domain sphere) [sample_a, sample_b] False zero_draws =
    (None, [sample_a', sample_b], True, zero_draws)"
  by (simp add: stepInner.simps sample_values sample_move [folded sample_a'_def])

lemma sample_inner1:
  "stepInner (Suc 0) 0 1 0 1 (domain sphere) [sample_a', sample_b] False zero_draws =
    (None, [sample_a', sample_b], False, zero_draws)"
  by (simp add: stepInner.simps sample_values)

lemma sample_outer:
  "stepOuter 0 1 0 1 (domain sphere) [sample_a, sample_b] zero_draws =
    (None, [sample_a', sample_b'], zero_draws)"
  by (simp add: stepOuter.simps sample_inner0 sample_inner1 sample_walk [folded sample_b'_def])

lemma sample_step:
  "step sample_swarm zero_draws =
    (None, sample_swarm\<lparr> fireflies := [sample_a', sample_b'], generation := 1,
       bestFirefly := Some (sample_b'\<lparr> trail := [] \<rparr>) \<rparr>, zero_draws)"
  apply (simp add: step_def sample_swarm_def sample_params_def sample_outer)
  apply (simp add: updateBest_def lowestValue_def sample_values clone_def newFirefly_def random_zero_draws evaluate_def)
  apply (simp add: sample_b'_def sample_b_def sphere_def)
  done

text \<open>
  Claim C4. A call of \<open>step\<close> leaves \<open>bestFirefly\<close> as it was, or replaces it with a clone of a
  firefly of least value in the population after the movement pass, and the latter only when
  no best was stored or that least value is strictly lower than the stored one. Hence, over
  any number \<open>k\<close> of calls of \<open>step\<close>, a stored best value never increases.
\<close>

theorem best_value_never_regresses:
  "(step s r = (e, s', r') \<longrightarrow>
      bestFirefly s' = bestFirefly s \<or>
      (\<exists>m c r0. m \<in> set (fireflies s') \<and> (\<forall>g \<in> set (fireflies s'). fvalue m \<le> fvalue g) \<and>
         clone m r0 = (Inr c, r') \<and> bestFirefly s' = Some c \<and>
         (\<forall>b. bestFirefly s = Some b \<longrightarrow> fvalue m < fvalue b)))
   \<and> (bestFirefly s = Some b \<longrightarrow>
        (\<exists>b'. bestFirefly (fst (steps k s r)) = Some b' \<and> fvalue b' \<le> fvalue b))"
  using step_best [of s r e s' r'] steps_monotone [of s b k r] by blast

theorem best_value_never_regresses_witness:
  "step sample_swarm zero_draws =
     (None, sample_swarm\<lparr> fireflies := [sample_a', sample_b'], generation := 1,
        bestFirefly := Some (sample_b'\<lparr> trail := [] \<rparr>) \<rparr>, zero_draws) \<and>
   bestFirefly sample_swarm = Some (sample_b\<lparr> gender := Male \<rparr>) \<and>
   fvalue (sample_b\<lparr> gender := Male \<rparr>) = 1 \<and>
   fvalue sample_a = 25 \<and> fvalue sample_a' = 41 \<and> fvalue sample_b' = 1 / 2 \<and>
   (\<exists>b'. bestFirefly (fst (steps 3 sample_swarm zero_draws)) = Some b' \<and> fvalue b' \<le> 1)"
proof -
  have st: "step sample_swarm zero_draws =
     (None, sample_swarm\<lparr> fireflies := [sample_a', sample_b'], generation := 1,
        bestFirefly := Some (sample_b'\<lparr> trail := [] \<rparr>) \<rparr>, zero_draws)"
    by (rule sample_step)
  have b: "bestFirefly sample_swarm = Some (sample_b\<lparr> gender := Male \<rparr>)"
    by (simp add: sample_swarm_def)
  have v: "fvalue (sample_b\<lparr> gender := Male \<rparr>) = 1"
    by (simp add: sample_values)
  show ?thesis
    using best_value_never_regresses [of sample_swarm zero_draws None
        "sample_swarm\<lparr> fireflies := [sample_a', sample_b'], generation := 1,
           bestFirefly := Some (sample_b'\<lparr> trail := [] \<rparr>) \<rparr>" zero_draws
        "sample_b\<lparr> gender := Male \<rparr>" 3]
      st b v sample_values by simp
qed

section \<open>The movement pass of step\<close>

text \<open>
  The pass in the words of the specification, to be compared with the loops of the source.
  \<open>scan_spec i js\<close> visits the indices \<open>js\<close> in order for the fixed agent \<open>i\<close>: whenever
  \<open>agents[j].value < agents[i].value\<close> at the moment of the comparison, \<open>agents[i]\<close> moves
  towards \<open>agents[j]\<close> and is stored back at once, so the next comparison reads the moved agent.
  \<open>pass_spec\<close> visits the agents in order, each against every \<open>j \<noteq> i\<close> in population order, and
  calls \<open>randomWalk\<close> with \<open>alpha * 0.1\<close> on an agent that met no brighter one. \<open>step_spec\<close> is
  the pass followed by \<open>generation += 1\<close> and the update of the best.
\<close>

fun scan_spec ::
  "nat \<Rightarrow> nat list \<Rightarrow> real \<Rightarrow> real \<Rightarrow> real \<Rightarrow> domain \<Rightarrow> firefly list \<Rightarrow> bool \<Rightarrow> rand
    \<Rightarrow> js_error option \<times> firefly list \<times> bool \<times> rand" where
  "scan_spec i [] beta0 gamma alpha d agents moved r0 = (None, agents, moved, r0)"
| "scan_spec i (j # js) beta0 gamma alpha d agents moved r0 =
    (if fvalue (agents ! j) < fvalue (agents ! i) then
       (case moveTowards (agents ! i) (agents ! j) beta0 gamma alpha d r0 of
          (Some e, a, r1) \<Rightarrow> (Some e, agents[i := a], moved, r1)
        | (None, a, r1) \<Rightarrow> scan_spec i js beta0 gamma alpha d (agents[i := a]) True r1)
     else scan_spec i js beta0 gamma alpha d agents moved r0)"

fun pass_spec ::
  "nat list \<Rightarrow> real \<Rightarrow> real \<Rightarrow> real \<Rightarrow> domain \<Rightarrow> firefly list \<Rightarrow> rand
    \<Rightarrow> js_error option \<times> firefly list \<times> rand" where
  "pass_spec [] beta0 gamma alpha d agents r0 = (None, agents, r0)"
| "pass_spec (i # rest) beta0 gamma alpha d agents r0 =
    (case scan_spec i (filter (\<lambda>j. j \<noteq> i) [0..<length agents]) beta0 gamma alpha d agents False r0 of
       (Some e, agents1, moved, r1) \<Rightarrow> (Some e, agents1, r1)
     | (None, agents1, moved, r1) \<Rightarrow>
         (if moved then pass_spec rest beta0 gamma alpha d agents1 r1
          else
            (case randomWalk (agents1 ! i) (alpha * 0.1) d r1 of
               (Some e, a, r2) \<Rightarrow> (Some e, agents1[i := a], r2)
             | (None, a, r2) \<Rightarrow> pass_spec rest beta0 gamma alpha d (agents1[i := a]) r2)))"

definition step_spec :: "algorithm \<Rightarrow> rand \<Rightarrow> js_error option \<times> algorithm \<times> rand" where
  "step_spec s r0 =
    (case algObjectiveFunction s of
       None \<Rightarrow> (Some TypeError, s, r0)
     | Some obj \<Rightarrow>
         (case pass_spec [0..<length (fireflies s)] (param_beta0 (params s)) (param_gamma (params s))
                 (param_alpha (params s)) (domain obj) (fireflies s) r0 of
            (Some e, agents, r1) \<Rightarrow> (Some e, s\<lparr> fireflies := agents \<rparr>, r1)
          | (None, agents, r1) \<Rightarrow>
              updateBest (s\<lparr> fireflies := agents, generation := generation s + 1 \<rparr>) r1))"

lemma stepInner_scan:
  "stepInner i j beta0 gamma alpha d fs moved r0 =
    scan_spec i (filter (\<lambda>k. k \<noteq> i) [j..<length fs]) beta0 gamma alpha d fs moved r0"
proof (induction i j beta0 gamma alpha d fs moved r0 rule: stepInner.induct)
  case (1 i j beta0 gamma alpha d fs moved r0)
  show ?case
  proof (cases "j < length fs")
    case False
    then show ?thesis by (subst stepInner.simps) simp
  next
    case True
    then have upt: "[j..<length fs] = j # [j + 1..<length fs]"
      by (simp add: upt_conv_Cons)
    show ?thesis
    proof (cases "i = j")
      case eq: True
      then show ?thesis
        using True "1.IH"(1) by (subst stepInner.simps) (simp add: upt)
    next
      case ne: False
      show ?thesis
      proof (cases "fvalue (fs ! j) < fvalue (fs ! i)")
        case dim: False
        then show ?thesis
          using True ne "1.IH"(3) by (subst stepInner.simps) (simp add: upt)
      next
        case bright: True
        obtain e f' r1 where mv: "moveTowards (fs ! i) (fs ! j) beta0 gamma alpha d r0 = (e, f', r1)"
          by (metis prod_cases3)
        show ?thesis
        proof (cases e)
          case (Some err)
          then show ?thesis
            using True ne bright mv by (subst stepInner.simps) (simp add: upt)
        next
          case None
          have "stepInner i (j + 1) beta0 gamma alpha d (fs[i := f']) True r1 =
              scan_spec i (filter (\<lambda>k. k \<noteq> i) [j + 1..<length (fs[i := f'])])
                beta0 gamma alpha d (fs[i := f']) True r1"
            using "1.IH"(2) [OF True ne refl refl bright] mv None by simp
          then show ?thesis
            using True ne bright mv None by (subst stepInner.simps) (simp add: upt)
        qed
      qed
    qed
  qed
qed

lemma stepOuter_pass:
  "stepOuter i beta0 gamma alpha d fs r0 = pass_spec [i..<length fs] beta0 gamma alpha d fs r0"
proof (induction i beta0 gamma alpha d fs r0 rule: stepOuter.induct)
  case (1 i beta0 gamma alpha d fs r0)
  show ?case
  proof (cases "i < length fs")
    case False
    then show ?thesis by (subst stepOuter.simps) simp
  next
    case True
    then have upt: "[i..<length fs] = i # [i + 1..<length fs]"
      by (simp add: upt_conv_Cons)
    obtain e fs1 moved r1 where
      inner: "stepInner i 0 beta0 gamma alpha d fs False r0 = (e, fs1, moved, r1)"
      by (metis prod_cases4)
    then have scan: "scan_spec i (filter (\<lambda>j. j \<noteq> i) [0..<length fs]) beta0 gamma alpha d fs False r0 =
        (e, fs1, moved, r1)"
      by (simp add: stepInner_scan)
    have len: "length fs1 = length fs"
      using inner by (rule stepInner_length)
    show ?thesis
    proof (cases e)
      case (Some err)
      then show ?thesis
        using True inner scan by (subst stepOuter.simps) (simp add: upt)
    next
      case None
      show ?thesis
      proof (cases moved)
        case mv: True
        have "stepOuter (i + 1) beta0 gamma alpha d fs1 r1 =
            pass_spec [i + 1..<length fs1] beta0 gamma alpha d fs1 r1"
          using "1.IH"(2) [OF True] inner None mv by simp
        then show ?thesis
          using True inner scan None mv len by (subst stepOuter.simps) (simp add: upt)
      next
        case nm: False
        obtain e2 f' r2 where rw: "randomWalk (fs1 ! i) (alpha * 0.1) d r1 = (e2, f', r2)"
          by (metis prod_cases3)
        show ?thesis
        proof (cases e2)
          case (Some err)
          then show ?thesis
            using True inner scan None nm rw by (subst stepOuter.simps) (simp add: upt)
        next
          case n2: None
          have "stepOuter (i + 1) beta0 gamma alpha d (fs1[i := f']) r2 =
              pass_spec [i + 1..<length (fs1[i := f'])] beta0 gamma alpha d (fs1[i := f']) r2"
            using "1.IH"(1) [OF True] inner None nm rw n2 by simp
          then show ?thesis
            using True inner scan None nm rw n2 len by (subst stepOuter.simps) (simp add: upt)
        qed
      qed
    qed
  qed
qed

lemma step_refines_spec: "step s r0 = step_spec s r0"
  by (cases "algObjectiveFunction s") (simp_all add: step_def step_spec_def stepOuter_pass Let_def)

lemma evaluate_defined:
  "objectiveFunction f = Some obj \<Longrightarrow>
    evaluate f = Inr (f\<lparr> fvalue := fn obj (pos_x f) (pos_y f), brightness := - fn obj (pos_x f) (pos_y f) \<rparr>)"
  by (simp add: evaluate_def Let_def)

lemma moveTowards_defined:
  assumes "objectiveFunction f \<noteq> None"
  shows "\<exists>f' r'. moveTowards f other beta0 gamma alpha d r = (None, f', r') \<and>
    objectiveFunction f' = objectiveFunction f"
proof -
  from assms obtain obj where "objectiveFunction f = Some obj" by auto
  then show ?thesis
    by (simp add: moveTowards_def Let_def split_def addTrailPoint_def clampToDomain_def
        evaluate_def)
qed

lemma randomWalk_defined:
  assumes "objectiveFunction f \<noteq> None"
  shows "\<exists>f' r'. randomWalk f alpha d r = (None, f', r') \<and>
    objectiveFunction f' = objectiveFunction f"
proof -
  from assms obtain obj where "objectiveFunction f = Some obj" by auto
  then show ?thesis
    by (simp add: randomWalk_def Let_def split_def addTrailPoint_def clampToDomain_def
        evaluate_def)
qed

lemma scan_spec_defined:
  assumes "\<forall>f \<in> set agents. objectiveFunction f \<noteq> None" and "i < length agents"
  shows "\<exists>agents1 moved1 r1. scan_spec i js beta0 gamma alpha d agents moved r0 = (None, agents1, moved1, r1) \<and>
    length agents1 = length agents \<and> (\<forall>f \<in> set agents1. objectiveFunction f \<noteq> None)"
  using assms
proof (induction js arbitrary: agents moved r0)
  case Nil
  then show ?case by simp
next
  case (Cons j js)
  show ?case
  proof (cases "fvalue (agents ! j) < fvalue (agents ! i)")
    case False
    then show ?thesis using Cons.IH [OF Cons.prems] by simp
  next
    case True
    have "objectiveFunction (agents ! i) \<noteq> None"
      using Cons.prems by simp
    then obtain f' r' where mv: "moveTowards (agents ! i) (agents ! j) beta0 gamma alpha d r0 = (None, f', r')"
      and o: "objectiveFunction f' = objectiveFunction (agents ! i)"
      using moveTowards_defined by blast
    have d: "\<forall>f \<in> set (agents[i := f']). objectiveFunction f \<noteq> None"
      using Cons.prems o \<open>objectiveFunction (agents ! i) \<noteq> None\<close>
      by (metis in_set_conv_nth length_list_update nth_list_update_eq nth_list_update_neq nth_mem)
    have l: "i < length (agents[i := f'])"
      using Cons.prems by simp
    from Cons.IH [OF d l, of True r'] show ?thesis
      using True mv by simp
  qed
qed

lemma pass_spec_defined:
  assumes "\<forall>f \<in> set agents. objectiveFunction f \<noteq> None" and "\<forall>i \<in> set idx. i < length agents"
  shows "\<exists>agents1 r1. pass_spec idx beta0 gamma alpha d agents r0 = (None, agents1, r1) \<and>
    length agents1 = length agents"
  using assms
proof (induction idx arbitrary: agents r0)
  case Nil
  then show ?case by simp
next
  case (Cons i rest)
  have il: "i < length agents" using Cons.prems by simp
  obtain agents1 moved1 r1 where
    sc: "scan_spec i (filter (\<lambda>j. j \<noteq> i) [0..<length agents]) beta0 gamma alpha d agents False r0 =
      (None, agents1, moved1, r1)"
    and len: "length agents1 = length agents"
    and d1: "\<forall>f \<in> set agents1. objectiveFunction f \<noteq> None"
    using scan_spec_defined [OF Cons.prems(1) il] by blast
  have idx1: "\<forall>k \<in> set rest. k < length agents1"
    using Cons.prems len by simp
  show ?case
  proof (cases moved1)
    case True
    from Cons.IH [OF d1 idx1, of r1] show ?thesis
      using sc True len by auto
  next
    case False
    have "objectiveFunction (agents1 ! i) \<noteq> None"
      using d1 il len by simp
    then obtain f' r2 where rw: "randomWalk (agents1 ! i) (alpha * 0.1) d r1 = (None, f', r2)"
      and o: "objectiveFunction f' = objectiveFunction (agents1 ! i)"
      using randomWalk_defined by blast
    have d2: "\<forall>f \<in> set (agents1[i := f']). objectiveFunction f \<noteq> None"
      using d1 o \<open>objectiveFunction (agents1 ! i) \<noteq> None\<close>
      by (metis in_set_conv_nth length_list_update nth_list_update_eq nth_list_update_neq nth_mem)
    have idx2: "\<forall>k \<in> set rest. k < length (agents1[i := f'])"
      using idx1 by simp
    from Cons.IH [OF d2 idx2, of r2] show ?thesis
      using sc False rw len by auto
  qed
qed

lemma step_generation:
  assumes "algObjectiveFunction s \<noteq> None" and "\<forall>f \<in> set (fireflies s). objectiveFunction f \<noteq> None"
  shows "generation (fst (snd (step s r0))) = generation s + 1 \<and>
    length (fireflies (fst (snd (step s r0)))) = length (fireflies s)"
proof -
  from assms(1) obtain obj where obj: "algObjectiveFunction s = Some obj" by auto
  have "\<forall>i \<in> set [0..<length (fireflies s)]. i < length (fireflies s)" by simp
  from pass_spec_defined [OF assms(2) this]
  obtain agents r1 where ps: "pass_spec [0..<length (fireflies s)] (param_beta0 (params s))
      (param_gamma (params s)) (param_alpha (params s)) (domain obj) (fireflies s) r0 = (None, agents, r1)"
    and len: "length agents = length (fireflies s)"
    by blast
  obtain e s' r' where ub: "updateBest (s\<lparr> fireflies := agents, generation := generation s + 1 \<rparr>) r1 = (e, s', r')"
    by (metis prod_cases3)
  have "step s r0 = (e, s', r')"
    using obj ps ub by (simp add: step_refines_spec step_spec_def)
  then show ?thesis
    using updateBest_frame [OF ub] len by simp
qed

text \<open>
  Claim C3. The loops of \<open>step\<close> compute the pass just described: every agent \<open>i\<close> in
  population order, against every \<open>j \<noteq> i\<close> in population order, with \<open>moveTowards\<close> applied in
  place whenever \<open>agents[j]\<close> is brighter at the moment of the comparison, and
  \<open>randomWalk(alpha * 0.1)\<close> for an agent that met no brighter one. On a swarm whose objective
  function and fireflies' objective functions are defined (no exception on the way), a call
  adds exactly \<open>1\<close> to \<open>generation\<close> and keeps the size of the population.
\<close>

theorem step_sequential_in_place:
  "step s r0 = step_spec s r0 \<and>
   (algObjectiveFunction s \<noteq> None \<and> (\<forall>f \<in> set (fireflies s). objectiveFunction f \<noteq> None) \<longrightarrow>
      generation (fst (snd (step s r0))) = generation s + 1 \<and>
      length (fireflies (fst (snd (step s r0)))) = length (fireflies s))"
  using step_refines_spec [of s r0] step_generation [of s r0] by blast

theorem step_sequential_in_place_witness:
  "algObjectiveFunction sample_swarm = Some sphere \<and>
   fireflies sample_swarm = [sample_a, sample_b] \<and>
   objectiveFunction sample_a = Some sphere \<and> objectiveFunction sample_b = Some sphere \<and>
   generation sample_swarm = 0 \<and>
   step_spec sample_swarm zero_draws =
     (None, sample_swarm\<lparr> fireflies := [sample_a', sample_b'], generation := 1,
        bestFirefly := Some (sample_b'\<lparr> trail := [] \<rparr>) \<rparr>, zero_draws) \<and>
   generation (fst (snd (step sample_swarm zero_draws))) = 1 \<and>
   length (fireflies (fst (snd (step sample_swarm zero_draws)))) = 2"
proof -
  have h: "algObjectiveFunction sample_swarm = Some sphere"
    "fireflies sample_swarm = [sample_a, sample_b]"
    "objectiveFunction sample_a = Some sphere" "objectiveFunction sample_b = Some sphere"
    "generation sample_swarm = 0"
    by (simp_all add: sample_swarm_def sample_a_def sample_b_def)
  note inst = step_sequential_in_place [of sample_swarm zero_draws]
  from inst have eq: "step sample_swarm zero_draws = step_spec sample_swarm zero_draws"
    by (rule conjunct1)
  have pre: "algObjectiveFunction sample_swarm \<noteq> None \<and>
      (\<forall>f \<in> set (fireflies sample_swarm). objectiveFunction f \<noteq> None)"
    using h by simp
  from inst [THEN conjunct2] pre
  have gen: "generation (fst (snd (step sample_swarm zero_draws))) = generation sample_swarm + 1 \<and>
      length (fireflies (fst (snd (step sample_swarm zero_draws)))) = length (fireflies sample_swarm)"
    by (rule mp)
  show ?thesis
    unfolding eq [symmetric] using h gen sample_step by simp
qed

section \<open>The response to a nearby flash\<close>

text \<open>
  A female one unit away from the flashing male \<open>sample_a\<close>, with \<open>interval = 4000\<close> and
  \<open>phase = 1000\<close>; and the sequence of draws that are all \<open>1/2\<close>.
\<close>

definition sample_c :: firefly where
  "sample_c =
    \<lparr> pos_x = 3, pos_y = 3, objectiveFunction = Some sphere, brightness = - 18,
      trail = [], maxTrailLength = 20, gender = Female,
      flashPhase = 1000, flashInterval = 4000, flashDuration = 200,
      isFlashing = False, flashIntensity = 0,
      responseDelay = 0, isResponding = False, fvalue = 18 \<rparr>"

definition half_draws :: rand where
  "half_draws = (\<lambda>k. 1 / 2)"

lemma nearbyFlashScan_iff:
  "nearbyFlashScan i self rd k xs \<longleftrightarrow>
    (\<exists>m < length xs. k + m \<noteq> i \<and> gender (xs ! m) = Male \<and> flashIntensity (xs ! m) > 0.5 \<and>
       distanceTo self (xs ! m) < rd)"
proof (induction xs arbitrary: k)
  case Nil
  show ?case by simp
next
  case (Cons other rest)
  have split: "(\<exists>m < length (other # rest). P m) \<longleftrightarrow> P 0 \<or> (\<exists>m < length rest. P (Suc m))" for P
    by (auto simp: less_Suc_eq_0_disj)
  show ?case
    unfolding split using Cons.IH [of "Suc k"] by (auto simp: Let_def)
qed

lemma checkForNearbyFlash_noop:
  assumes "gender (fs ! i) \<noteq> Female \<or> isFlashing (fs ! i) \<or> isResponding (fs ! i) \<or>
    flashInterval (fs ! i) - flashPhase (fs ! i) < 500"
  shows "checkForNearbyFlash i fs d r = (fs, r)"
  using assms by (auto simp: checkForNearbyFlash_def Let_def)

lemma checkForNearbyFlash_active:
  assumes "gender (fs ! i) = Female" "\<not> isFlashing (fs ! i)" "\<not> isResponding (fs ! i)"
    "\<not> flashInterval (fs ! i) - flashPhase (fs ! i) < 500"
  shows "checkForNearbyFlash i fs d r =
    (if \<exists>k < length fs. k \<noteq> i \<and> gender (fs ! k) = Male \<and> flashIntensity (fs ! k) > 0.5 \<and>
          distanceTo (fs ! i) (fs ! k) < 0.2 * max (xMax d - xMin d) (yMax d - yMin d)
     then (fs[i := (fs ! i)\<lparr> responseDelay := 400 + r 0 * 200, isResponding := True \<rparr>],
           \<lambda>k. r (Suc k))
     else (fs, r))"
proof -
  define P where "P \<longleftrightarrow> (\<exists>k < length fs. k \<noteq> i \<and> gender (fs ! k) = Male \<and>
      flashIntensity (fs ! k) > 0.5 \<and>
      distanceTo (fs ! i) (fs ! k) < 0.2 * max (xMax d - xMin d) (yMax d - yMin d))"
  have scan: "nearbyFlashScan i (fs ! i) (max (xMax d - xMin d) (yMax d - yMin d) * 0.2) 0 fs \<longleftrightarrow> P"
    unfolding P_def by (simp add: nearbyFlashScan_iff mult.commute)
  have "checkForNearbyFlash i fs d r =
    (if P then (fs[i := (fs ! i)\<lparr> responseDelay := 400 + r 0 * 200, isResponding := True \<rparr>],
           \<lambda>k. r (Suc k))
     else (fs, r))"
    using assms unfolding checkForNearbyFlash_def Let_def scan
    by (simp add: random_def)
  then show ?thesis
    unfolding P_def .
qed

lemma if_result_cases:
  "x = (if P then a else b) \<Longrightarrow> Q \<Longrightarrow> (if P then x = a \<and> Q else x = b)"
  by (cases P) simp_all

text \<open>
  Claim C8. \<open>checkForNearbyFlash\<close>, called on the firefly at index \<open>i\<close> of the population, returns
  the population and the random source untouched when that firefly is not female, is flashing,
  is responding, or has \<open>interval - phase < 500\<close>. Otherwise, if some other firefly is male, has
  intensity above \<open>0.5\<close> and is strictly nearer than \<open>0.2 * max(width, height)\<close>, the call sets
  \<open>isResponding\<close> and \<open>responseDelay = 400 + 200 u\<close> for one draw \<open>u\<close> (so within \<open>[400, 600)\<close> for
  \<open>u\<close> in \<open>[0, 1)\<close>), changes nothing else and consumes exactly that one draw; if there is no
  such male, nothing changes.
\<close>

theorem checkForNearbyFlash_response:
  assumes "i < length fs"
  shows "(gender (fs ! i) \<noteq> Female \<or> isFlashing (fs ! i) \<or> isResponding (fs ! i) \<or>
        flashInterval (fs ! i) - flashPhase (fs ! i) < 500
      \<longrightarrow> checkForNearbyFlash i fs d r = (fs, r))
    \<and> (gender (fs ! i) = Female \<and> \<not> isFlashing (fs ! i) \<and> \<not> isResponding (fs ! i) \<and>
        \<not> flashInterval (fs ! i) - flashPhase (fs ! i) < 500
      \<longrightarrow> (if \<exists>k < length fs. k \<noteq> i \<and> gender (fs ! k) = Male \<and> flashIntensity (fs ! k) > 0.5 \<and>
                distanceTo (fs ! i) (fs ! k) < 0.2 * max (xMax d - xMin d) (yMax d - yMin d)
           then checkForNearbyFlash i fs d r =
                  (fs[i := (fs ! i)\<lparr> responseDelay := 400 + r 0 * 200, isResponding := True \<rparr>],
                   \<lambda>k. r (Suc k)) \<and>
                (0 \<le> r 0 \<and> r 0 < 1 \<longrightarrow> 400 \<le> 400 + r 0 * 200 \<and> 400 + r 0 * 200 < 600)
           else checkForNearbyFlash i fs d r = (fs, r)))"
proof (intro conjI impI)
  assume "gender (fs ! i) \<noteq> Female \<or> isFlashing (fs ! i) \<or> isResponding (fs ! i) \<or>
        flashInterval (fs ! i) - flashPhase (fs ! i) < 500"
  then show "checkForNearbyFlash i fs d r = (fs, r)"
    by (rule checkForNearbyFlash_noop)
next
  assume a: "gender (fs ! i) = Female \<and> \<not> isFlashing (fs ! i) \<and> \<not> isResponding (fs ! i) \<and>
        \<not> flashInterval (fs ! i) - flashPhase (fs ! i) < 500"
  have "checkForNearbyFlash i fs d r =
    (if \<exists>k < length fs. k \<noteq> i \<and> gender (fs ! k) = Male \<and> flashIntensity (fs ! k) > 0.5 \<and>
          distanceTo (fs ! i) (fs ! k) < 0.2 * max (xMax d - xMin d) (yMax d - yMin d)
     then (fs[i := (fs ! i)\<lparr> responseDelay := 400 + r 0 * 200, isResponding := True \<rparr>],
           \<lambda>k. r (Suc k))
     else (fs, r))"
    using a by (intro checkForNearbyFlash_active) simp_all
  moreover have "0 \<le> r 0 \<and> r 0 < 1 \<longrightarrow> 400 \<le> 400 + r 0 * 200 \<and> 400 + r 0 * 200 < 600"
    by simp
  ultimately show "if \<exists>k < length fs. k \<noteq> i \<and> gender (fs ! k) = Male \<and> flashIntensity (fs ! k) > 0.5 \<and>
                distanceTo (fs ! i) (fs ! k) < 0.2 * max (xMax d - xMin d) (yMax d - yMin d)
           then checkForNearbyFlash i fs d r =
                  (fs[i := (fs ! i)\<lparr> responseDelay := 400 + r 0 * 200, isResponding := True \<rparr>],
                   \<lambda>k. r (Suc k)) \<and>
                (0 \<le> r 0 \<and> r 0 < 1 \<longrightarrow> 400 \<le> 400 + r 0 * 200 \<and> 400 + r 0 * 200 < 600)
           else checkForNearbyFlash i fs d r = (fs, r)"
    by (rule if_result_cases)
qed

lemma sample_distance: "distanceTo sample_c sample_a = 1"
  by (simp add: distanceTo_def sample_c_def sample_a_def Let_def)

theorem checkForNearbyFlash_response_witness:
  "(1 :: nat) < length [sample_a, sample_c] \<and> (0 :: nat) < length [sample_a, sample_c] \<and>
   gender ([sample_a, sample_c] ! 0) \<noteq> Female \<and>
   checkForNearbyFlash 0 [sample_a, sample_c] (domain sphere) half_draws =
     ([sample_a, sample_c], half_draws) \<and>
   gender sample_c = Female \<and> \<not> isFlashing sample_c \<and> \<not> isResponding sample_c \<and>
   flashInterval sample_c = 4000 \<and> flashPhase sample_c = 1000 \<and>
   gender sample_a = Male \<and> flashIntensity sample_a = 3 / 5 \<and>
   distanceTo sample_c sample_a = 1 \<and>
   0.2 * max (xMax (domain sphere) - xMin (domain sphere)) (yMax (domain sphere) - yMin (domain sphere)) = 2 \<and>
   checkForNearbyFlash 1 [sample_a, sample_c] (domain sphere) half_draws =
     ([sample_a, sample_c\<lparr> responseDelay := 500, isResponding := True \<rparr>], half_draws)"
proof -
  have f: "gender sample_c = Female" "\<not> isFlashing sample_c" "\<not> isResponding sample_c"
    "flashInterval sample_c = 4000" "flashPhase sample_c = 1000"
    by (simp_all add: sample_c_def)
  have m: "gender sample_a = Male" "flashIntensity sample_a = 3 / 5"
    by (simp_all add: sample_a_def)
  have rd: "0.2 * max (xMax (domain sphere) - xMin (domain sphere))
      (yMax (domain sphere) - yMin (domain sphere)) = 2"
    by (simp add: sphere_def)
  have ex: "\<exists>k < length [sample_a, sample_c]. k \<noteq> 1 \<and> gender ([sample_a, sample_c] ! k) = Male \<and>
      flashIntensity ([sample_a, sample_c] ! k) > 0.5 \<and>
      distanceTo ([sample_a, sample_c] ! 1) ([sample_a, sample_c] ! k)
        < 0.2 * max (xMax (domain sphere) - xMin (domain sphere))
            (yMax (domain sphere) - yMin (domain sphere))"
    unfolding rd by (rule exI [of _ 0]) (simp add: m sample_distance)
  have l: "(1 :: nat) < length [sample_a, sample_c]" "(0 :: nat) < length [sample_a, sample_c]"
    by simp_all
  have r: "half_draws 0 = 1 / 2" "(\<lambda>k. half_draws (Suc k)) = half_draws"
    by (simp_all add: half_draws_def)
  have a: "checkForNearbyFlash 0 [sample_a, sample_c] (domain sphere) half_draws =
     ([sample_a, sample_c], half_draws)"
    using checkForNearbyFlash_response [OF l(2), of "domain sphere" half_draws] m by simp
  have b: "checkForNearbyFlash 1 [sample_a, sample_c] (domain sphere) half_draws =
     ([sample_a, sample_c\<lparr> responseDelay := 500, isResponding := True \<rparr>], half_draws)"
    using checkForNearbyFlash_response [OF l(1), of "domain sphere" half_draws,
        THEN conjunct2] f ex
    by (simp only: if_True) (simp add: r f)
  show ?thesis
    using l f m rd a b sample_distance by simp
qed

section \<open>The two phases of a tick\<close>

text \<open>
  What a response check reads of the other fireflies, and of the position of its own: the
  gender, the intensity and the position. No check changes any of them.
\<close>

definition flash_view :: "firefly \<Rightarrow> gender \<times> real \<times> real \<times> real" where
  "flash_view f = (gender f, flashIntensity f, pos_x f, pos_y f)"

lemma nearbyFlashScan_view:
  assumes "map flash_view xs = map flash_view ys"
    and "pos_x self = pos_x self'" and "pos_y self = pos_y self'"
  shows "nearbyFlashScan i self rd k xs = nearbyFlashScan i self' rd k ys"
  using assms(1)
proof (induction xs arbitrary: ys k)
  case Nil
  then show ?case by simp
next
  case (Cons x xs)
  then obtain y ys' where ys: "ys = y # ys'" and v: "flash_view x = flash_view y"
    and rest: "map flash_view xs = map flash_view ys'"
    by (cases ys) auto
  have d: "distanceTo self x = distanceTo self' y"
    using v assms(2,3) by (simp add: distanceTo_def flash_view_def)
  show ?case
    using Cons.IH [OF rest, of "Suc k"] v d by (simp add: ys flash_view_def Let_def)
qed

lemma checkForNearbyFlash_result:
  "fst (checkForNearbyFlash i fs d r) = fs \<or>
   fst (checkForNearbyFlash i fs d r) =
     fs[i := (fs ! i)\<lparr> responseDelay := 400 + r 0 * 200, isResponding := True \<rparr>]"
  by (simp add: checkForNearbyFlash_def Let_def random_def)

lemma checkForNearbyFlash_other:
  "k \<noteq> i \<Longrightarrow> fst (checkForNearbyFlash i fs d r) ! k = fs ! k"
  using checkForNearbyFlash_result [of i fs d r] by auto

lemma checkForNearbyFlash_view:
  "map flash_view (fst (checkForNearbyFlash i fs d r)) = map flash_view fs"
proof -
  have "map flash_view (fs[i := (fs ! i)\<lparr> responseDelay := x, isResponding := True \<rparr>]) =
      map flash_view fs" for x
  proof (cases "i < length fs")
    case True
    then show ?thesis
      by (intro nth_equalityI) (auto simp: nth_list_update flash_view_def)
  next
    case False
    then show ?thesis by (metis list_update_beyond not_less)
  qed
  then show ?thesis
    using checkForNearbyFlash_result [of i fs d r] by auto
qed

lemma checkForNearbyFlash_cong:
  assumes "map flash_view fs1 = map flash_view fs" and "fs1 ! k = fs ! k" and "k < length fs"
  shows "fst (checkForNearbyFlash k fs1 d r) ! k = fst (checkForNearbyFlash k fs d r) ! k"
proof -
  have len: "length fs1 = length fs"
    using assms(1) by (metis length_map)
  have scan: "nearbyFlashScan k (fs ! k) rd 0 fs1 = nearbyFlashScan k (fs ! k) rd 0 fs" for rd
    using assms(1) by (rule nearbyFlashScan_view) simp_all
  show ?thesis
    using assms(2,3) len
    by (simp add: checkForNearbyFlash_def Let_def scan split_def)
qed

lemma checkLoop_checks_on_start:
  assumes "checkLoop i fs d r = (fs', r')"
  shows "map flash_view fs' = map flash_view fs \<and>
    (\<forall>k < length fs. k < i \<longrightarrow> fs' ! k = fs ! k) \<and>
    (\<forall>k < length fs. i \<le> k \<longrightarrow>
       (\<exists>rk. fs' ! k = (if gender (fs ! k) = Female
                        then fst (checkForNearbyFlash k fs d rk) ! k else fs ! k)))"
  using assms
proof (induction i fs d r arbitrary: fs' r' rule: checkLoop.induct)
  case (1 i fs d r0)
  show ?case
  proof (cases "i < length fs")
    case False
    with "1.prems" have "fs' = fs"
      by (subst (asm) checkLoop.simps) simp
    with False show ?thesis by simp
  next
    case True
    define fs1 where "fs1 = (if gender (fs ! i) = Female then fst (checkForNearbyFlash i fs d r0) else fs)"
    define r1 where "r1 = (if gender (fs ! i) = Female then snd (checkForNearbyFlash i fs d r0) else r0)"
    have rec: "checkLoop (i + 1) fs1 d r1 = (fs', r')"
      using "1.prems" True
      by (subst (asm) checkLoop.simps) (auto simp: fs1_def r1_def split: prod.splits if_splits)
    have v1: "map flash_view fs1 = map flash_view fs"
      by (simp add: fs1_def checkForNearbyFlash_view)
    have len1: "length fs1 = length fs"
      using v1 by (metis length_map)
    have other: "k \<noteq> i \<Longrightarrow> fs1 ! k = fs ! k" for k
      by (simp add: fs1_def checkForNearbyFlash_other)
    have ih: "map flash_view fs' = map flash_view fs1 \<and>
      (\<forall>k < length fs1. k < i + 1 \<longrightarrow> fs' ! k = fs1 ! k) \<and>
      (\<forall>k < length fs1. i + 1 \<le> k \<longrightarrow>
         (\<exists>rk. fs' ! k = (if gender (fs1 ! k) = Female
                          then fst (checkForNearbyFlash k fs1 d rk) ! k else fs1 ! k)))"
    proof (cases "gender (fs ! i) = Female")
      case f: True
      have "checkForNearbyFlash i fs d r0 = (fs1, r1)"
        by (simp add: fs1_def r1_def f)
      from "1.IH"(1) [OF True f this [symmetric] rec] show ?thesis .
    next
      case nf: False
      then have same: "fs1 = fs" "r1 = r0" by (simp_all add: fs1_def r1_def)
      have "checkLoop (i + 1) fs d r0 = (fs', r')"
        using rec by (simp add: same)
      from "1.IH"(2) [OF True nf this] show ?thesis
        unfolding same .
    qed
    have a: "map flash_view fs' = map flash_view fs"
      using ih v1 by simp
    have b: "\<forall>k < length fs. k < i \<longrightarrow> fs' ! k = fs ! k"
      using ih len1 other by auto
    have c: "\<exists>rk. fs' ! k = (if gender (fs ! k) = Female
                        then fst (checkForNearbyFlash k fs d rk) ! k else fs ! k)"
      if kl: "k < length fs" and ik: "i \<le> k" for k
    proof (cases "k = i")
      case True
      then have "fs' ! k = fs1 ! i"
        using ih len1 kl by simp
      then show ?thesis
        using True by (auto simp: fs1_def)
    next
      case False
      with ik have "i + 1 \<le> k" by simp
      then obtain rk where "fs' ! k = (if gender (fs1 ! k) = Female
                          then fst (checkForNearbyFlash k fs1 d rk) ! k else fs1 ! k)"
        using ih len1 kl by auto
      moreover have "fs1 ! k = fs ! k" using False by (rule other)
      moreover have "fst (checkForNearbyFlash k fs1 d rk) ! k = fst (checkForNearbyFlash k fs d rk) ! k"
        using v1 \<open>fs1 ! k = fs ! k\<close> kl by (rule checkForNearbyFlash_cong)
      ultimately show ?thesis by auto
    qed
    show ?thesis
      using a b c by blast
  qed
qed

definition flash_swarm :: algorithm where
  "flash_swarm = sample_swarm\<lparr> fireflies := [sample_a, sample_c] \<rparr>"

lemma sample_check_male:
  "checkForNearbyFlash 0 [sample_a, sample_c] (domain sphere) half_draws =
     ([sample_a, sample_c], half_draws)"
  by (rule checkForNearbyFlash_noop) (simp add: sample_a_def)

lemma sample_check_female:
  "checkForNearbyFlash (Suc 0) [sample_a, sample_c] (domain sphere) half_draws =
     ([sample_a, sample_c\<lparr> responseDelay := 500, isResponding := True \<rparr>], half_draws)"
proof -
  have m: "gender sample_a = Male" "flashIntensity sample_a = 3 / 5"
    by (simp_all add: sample_a_def)
  have rd: "0.2 * max (xMax (domain sphere) - xMin (domain sphere))
      (yMax (domain sphere) - yMin (domain sphere)) = 2"
    by (simp add: sphere_def)
  have ex: "\<exists>k < length [sample_a, sample_c]. k \<noteq> Suc 0 \<and> gender ([sample_a, sample_c] ! k) = Male \<and>
      flashIntensity ([sample_a, sample_c] ! k) > 0.5 \<and>
      distanceTo ([sample_a, sample_c] ! Suc 0) ([sample_a, sample_c] ! k)
        < 0.2 * max (xMax (domain sphere) - xMin (domain sphere))
            (yMax (domain sphere) - yMin (domain sphere))"
    unfolding rd by (rule exI [of _ 0]) (simp add: m sample_distance)
  have r: "half_draws 0 = 1 / 2" "(\<lambda>k. half_draws (Suc k)) = half_draws"
    by (simp_all add: half_draws_def)
  have "checkForNearbyFlash (Suc 0) [sample_a, sample_c] (domain sphere) half_draws =
    (if \<exists>k < length [sample_a, sample_c]. k \<noteq> Suc 0 \<and> gender ([sample_a, sample_c] ! k) = Male \<and>
          flashIntensity ([sample_a, sample_c] ! k) > 0.5 \<and>
          distanceTo ([sample_a, sample_c] ! Suc 0) ([sample_a, sample_c] ! k)
            < 0.2 * max (xMax (domain sphere) - xMin (domain sphere))
                (yMax (domain sphere) - yMin (domain sphere))
     then ([sample_a, sample_c][Suc 0 := ([sample_a, sample_c] ! Suc 0)
              \<lparr> responseDelay := 400 + half_draws 0 * 200, isResponding := True \<rparr>],
           \<lambda>k. half_draws (Suc k))
     else ([sample_a, sample_c], half_draws))"
    by (rule checkForNearbyFlash_active) (simp_all add: sample_c_def)
  also have "\<dots> = ([sample_a, sample_c][Suc 0 := ([sample_a, sample_c] ! Suc 0)
              \<lparr> responseDelay := 400 + half_draws 0 * 200, isResponding := True \<rparr>],
           \<lambda>k. half_draws (Suc k))"
    using ex by (simp only: if_True)
  also have "\<dots> = ([sample_a, sample_c\<lparr> responseDelay := 500, isResponding := True \<rparr>], half_draws)"
    by (simp add: r)
  finally show ?thesis .
qed

lemma sample_checkLoop:
  "checkLoop 0 [sample_a, sample_c] (domain sphere) half_draws =
     ([sample_a, sample_c\<lparr> responseDelay := 500, isResponding := True \<rparr>], half_draws)"
proof -
  have g: "gender sample_a = Male" "gender sample_c = Female"
    by (simp_all add: sample_a_def sample_c_def)
  show ?thesis
    by (simp add: checkLoop.simps g sample_check_female)
qed

text \<open>
  Claim C9. The flash update of \<open>render\<close> runs the response checks over the whole population
  first and only then calls \<open>updateFlash(deltaTime)\<close> on every firefly. The checks leave every
  gender, intensity and position as the tick found them, and the state in which a firefly
  enters \<open>updateFlash\<close> is, for a female, the outcome of its check on the population as it was at
  the start of the tick (for some state of the random source), and for a male its state at the
  start of the tick: a check never sees an intensity that \<open>updateFlash\<close> computes in the same tick.
\<close>

theorem render_checks_before_updates:
  assumes "algObjectiveFunction s = Some obj"
  shows "\<exists>fs1 r1. checkLoop 0 (fireflies s) (domain obj) r0 = (fs1, r1) \<and>
    render s deltaTime r0 =
      (None, s\<lparr> fireflies := map (\<lambda>firefly. updateFlash firefly deltaTime) fs1 \<rparr>, r1) \<and>
    length fs1 = length (fireflies s) \<and>
    (\<forall>k < length (fireflies s).
       gender (fs1 ! k) = gender (fireflies s ! k) \<and>
       flashIntensity (fs1 ! k) = flashIntensity (fireflies s ! k) \<and>
       pos_x (fs1 ! k) = pos_x (fireflies s ! k) \<and> pos_y (fs1 ! k) = pos_y (fireflies s ! k) \<and>
       (\<exists>rk. fs1 ! k =
          (if gender (fireflies s ! k) = Female
           then fst (checkForNearbyFlash k (fireflies s) (domain obj) rk) ! k
           else fireflies s ! k)))"
proof -
  obtain fs1 r1 where cl: "checkLoop 0 (fireflies s) (domain obj) r0 = (fs1, r1)"
    by (metis surj_pair)
  have rn: "render s deltaTime r0 =
      (None, s\<lparr> fireflies := map (\<lambda>firefly. updateFlash firefly deltaTime) fs1 \<rparr>, r1)"
    using assms cl by (simp add: render_def)
  note inv = checkLoop_checks_on_start [OF cl]
  from inv have v: "map flash_view fs1 = map flash_view (fireflies s)" by simp
  then have len: "length fs1 = length (fireflies s)"
    by (metis length_map)
  have fields: "gender (fs1 ! k) = gender (fireflies s ! k) \<and>
       flashIntensity (fs1 ! k) = flashIntensity (fireflies s ! k) \<and>
       pos_x (fs1 ! k) = pos_x (fireflies s ! k) \<and> pos_y (fs1 ! k) = pos_y (fireflies s ! k)"
    if "k < length (fireflies s)" for k
  proof -
    have "flash_view (fs1 ! k) = flash_view (fireflies s ! k)"
      using v that len by (metis nth_map)
    then show ?thesis by (simp add: flash_view_def)
  qed
  have each: "\<exists>rk. fs1 ! k =
          (if gender (fireflies s ! k) = Female
           then fst (checkForNearbyFlash k (fireflies s) (domain obj) rk) ! k
           else fireflies s ! k)"
    if "k < length (fireflies s)" for k
    using inv that by simp
  show ?thesis
    using cl rn len fields each by blast
qed

theorem render_checks_before_updates_witness:
  "algObjectiveFunction flash_swarm = Some sphere \<and>
   fireflies flash_swarm = [sample_a, sample_c] \<and>
   flashIntensity sample_a = 3 / 5 \<and>
   checkLoop 0 [sample_a, sample_c] (domain sphere) half_draws =
     ([sample_a, sample_c\<lparr> responseDelay := 500, isResponding := True \<rparr>], half_draws) \<and>
   render flash_swarm 40 half_draws =
     (None,
      flash_swarm\<lparr> fireflies :=
        [updateFlash sample_a 40,
         updateFlash (sample_c\<lparr> responseDelay := 500, isResponding := True \<rparr>) 40] \<rparr>,
      half_draws) \<and>
   flashIntensity (updateFlash sample_a 40) = exp (- (3 / 2)) \<and>
   isResponding (updateFlash (sample_c\<lparr> responseDelay := 500, isResponding := True \<rparr>) 40) \<and>
   responseDelay (updateFlash (sample_c\<lparr> responseDelay := 500, isResponding := True \<rparr>) 40) = 460"
proof -
  have h: "algObjectiveFunction flash_swarm = Some sphere"
    and f: "fireflies flash_swarm = [sample_a, sample_c]"
    by (simp_all add: flash_swarm_def sample_swarm_def)
  obtain fs1 r1 where
    cl: "checkLoop 0 (fireflies flash_swarm) (domain sphere) half_draws = (fs1, r1)"
    and rn: "render flash_swarm 40 half_draws =
      (None, flash_swarm\<lparr> fireflies := map (\<lambda>firefly. updateFlash firefly 40) fs1 \<rparr>, r1)"
    using render_checks_before_updates [OF h, of half_draws 40] by blast
  from cl have fs1: "fs1 = [sample_a, sample_c\<lparr> responseDelay := 500, isResponding := True \<rparr>]"
    and r1: "r1 = half_draws"
    by (simp_all add: f sample_checkLoop)
  have i: "flashIntensity sample_a = 3 / 5"
    by (simp add: sample_a_def)
  have u: "flashIntensity (updateFlash sample_a 40) = exp (- (3 / 2))"
    by (simp add: updateFlash_staged flashTiming_plain sample_a_def Let_def)
  have w: "isResponding (updateFlash (sample_c\<lparr> responseDelay := 500, isResponding := True \<rparr>) 40)"
    "responseDelay (updateFlash (sample_c\<lparr> responseDelay := 500, isResponding := True \<rparr>) 40) = 460"
    by (simp_all add: updateFlash_staged flashTiming_def sample_c_def Let_def)
  show ?thesis
    using h f i sample_checkLoop rn u w by (simp add: fs1 r1)
qed

section \<open>setParams: errors and parameters\<close>

lemma evaluate_error: "evaluate f = Inl e \<Longrightarrow> e = TypeError"
  by (auto simp: evaluate_def Let_def split: option.splits)

lemma newFirefly_error: "newFirefly x y objf r = (Inl e, r') \<Longrightarrow> e = TypeError"
  by (auto simp: newFirefly_def Let_def split_def dest: evaluate_error)

lemma clone_error: "clone f r = (Inl e, r') \<Longrightarrow> e = TypeError"
  by (auto simp: clone_def split: prod.splits sum.splits dest: newFirefly_error)

lemma updateBest_error: "updateBest s r = (Some e, s', r') \<Longrightarrow> e = TypeError"
  by (auto simp: updateBest_def Let_def split: list.splits if_splits prod.splits sum.splits
      dest: clone_error)

lemma rebindLoop_error: "rebindLoop objf fs = (Some e, fs') \<Longrightarrow> e = TypeError"
proof (induction fs arbitrary: fs')
  case Nil
  then show ?case by simp
next
  case (Cons f fs)
  then show ?case
    by (auto simp: Let_def split: option.splits sum.splits prod.splits dest: evaluate_error)
qed

lemma growLoop_unfold:
  "growLoop newN objf d fs r0 =
    (if int (length fs) < newN then
       (case newFirefly (xMin d + r0 0 * (xMax d - xMin d))
               (yMin d + r0 (Suc 0) * (yMax d - yMin d)) objf (\<lambda>k. r0 (Suc (Suc k))) of
          (Inl e, r3) \<Rightarrow> (Some e, fs, r3)
        | (Inr firefly, r3) \<Rightarrow> growLoop newN objf d (fs @ [firefly]) r3)
     else (None, fs, r0))"
  by (subst growLoop.simps) (simp add: random_def Let_def)

lemma growLoop_error:
  "growLoop newN objf d fs r = (Some e, fs', r') \<Longrightarrow> e = TypeError"
proof (induction "nat (newN - int (length fs))" arbitrary: fs r)
  case 0
  then have "\<not> int (length fs) < newN" by simp
  then have "growLoop newN objf d fs r = (None, fs, r)"
    by (subst growLoop_unfold) simp
  with "0.prems" show ?case by simp
next
  case (Suc n)
  then have lt: "int (length fs) < newN" by simp
  note unf = growLoop_unfold [of newN objf d fs r]
  obtain res r3 where nf: "newFirefly (xMin d + r 0 * (xMax d - xMin d))
      (yMin d + r (Suc 0) * (yMax d - yMin d)) objf (\<lambda>k. r (Suc (Suc k))) = (res, r3)"
    by (metis surj_pair)
  show ?case
  proof (cases res)
    case (Inl err)
    with Suc.prems lt nf newFirefly_error show ?thesis
      by (auto simp: unf)
  next
    case (Inr firefly)
    with Suc.prems lt nf have rec: "growLoop newN objf d (fs @ [firefly]) r3 = (Some e, fs', r')"
      by (simp add: unf)
    have "n = nat (newN - int (length (fs @ [firefly])))"
      using Suc.hyps(2) by simp
    from Suc.hyps(1) [OF this rec] show ?thesis .
  qed
qed

lemma adjustPopulation_error:
  "adjustPopulation s newN r = (Some e, s', r') \<Longrightarrow> e = TypeError"
  by (auto simp: adjustPopulation_def split: option.splits if_splits prod.splits
      dest: growLoop_error)

lemma adjustPopulation_error_fst:
  "fst (adjustPopulation s newN r) = Some e \<Longrightarrow> e = TypeError"
  using adjustPopulation_error [of s newN r e] by (cases "adjustPopulation s newN r") auto

lemma adjustPopulation_frame:
  "adjustPopulation s newN r = (e, s', r') \<Longrightarrow>
    params s' = params s \<and> generation s' = generation s \<and> bestFirefly s' = bestFirefly s \<and>
    algObjectiveFunction s' = algObjectiveFunction s"
  by (auto simp: adjustPopulation_def split: option.splits if_splits prod.splits)

lemma setParams_same_function:
  assumes "new_functionKey np = None \<or> new_functionKey np = Some [] \<or>
    new_functionKey np = Some (param_functionKey (params s))"
  shows "setParams s np r0 =
    (if (case new_n np of None \<Rightarrow> False | Some k \<Rightarrow> k \<noteq> 0 \<and> k \<noteq> param_n (params s))
     then adjustPopulation (s\<lparr> params := mergeParams (params s) np \<rparr>)
            (case new_n np of Some k \<Rightarrow> k | None \<Rightarrow> 0) r0
     else (None, s\<lparr> params := mergeParams (params s) np \<rparr>, r0))"
  using assms by (auto simp: setParams_def Let_def)

lemma setParams_new_function:
  assumes "new_functionKey np = Some key" and "key \<noteq> []" and "key \<noteq> param_functionKey (params s)"
  shows "setParams s np r0 =
    (case rebindLoop (objectiveFunctions key) (fireflies s) of
       (Some e, fs) \<Rightarrow>
         (Some e, s\<lparr> params := mergeParams (params s) np,
                     algObjectiveFunction := objectiveFunctions key, fireflies := fs \<rparr>, r0)
     | (None, fs) \<Rightarrow>
         (case updateBest (s\<lparr> params := mergeParams (params s) np,
                              algObjectiveFunction := objectiveFunctions key,
                              fireflies := fs, bestFirefly := None \<rparr>) r0 of
            (Some e, s2, r2) \<Rightarrow> (Some e, s2, r2)
          | (None, s2, r2) \<Rightarrow>
              (if (case new_n np of None \<Rightarrow> False | Some k \<Rightarrow> k \<noteq> 0 \<and> k \<noteq> param_n (params s))
               then adjustPopulation s2 (case new_n np of Some k \<Rightarrow> k | None \<Rightarrow> 0) r2
               else (None, s2, r2))))"
proof -
  have k: "param_functionKey (mergeParams (params s) np) = key"
    using assms(1) by (simp add: mergeParams_def)
  show ?thesis
    using assms
    by (auto simp: setParams_def Let_def k split: prod.splits option.splits)
qed

lemma setParams_cases:
  "(new_functionKey np = None \<or> new_functionKey np = Some [] \<or>
    new_functionKey np = Some (param_functionKey (params s))) \<or>
   (\<exists>key. new_functionKey np = Some key \<and> key \<noteq> [] \<and> key \<noteq> param_functionKey (params s))"
  by (cases "new_functionKey np") auto

lemma setParams_params:
  "params (fst (snd (setParams s np r0))) = mergeParams (params s) np"
proof -
  consider (same) "new_functionKey np = None \<or> new_functionKey np = Some [] \<or>
      new_functionKey np = Some (param_functionKey (params s))"
    | (new) key where "new_functionKey np = Some key" "key \<noteq> []"
      "key \<noteq> param_functionKey (params s)"
    using setParams_cases [of np s] by blast
  then show ?thesis
  proof cases
    case same
    show ?thesis
    proof (cases "case new_n np of None \<Rightarrow> False | Some k \<Rightarrow> k \<noteq> 0 \<and> k \<noteq> param_n (params s)")
      case False
      then show ?thesis by (simp add: setParams_same_function [OF same])
    next
      case True
      obtain e s' r' where ad: "adjustPopulation (s\<lparr> params := mergeParams (params s) np \<rparr>)
            (case new_n np of Some k \<Rightarrow> k | None \<Rightarrow> 0) r0 = (e, s', r')"
        by (metis prod_cases3)
      from adjustPopulation_frame [OF ad] True ad show ?thesis
        by (simp add: setParams_same_function [OF same])
    qed
  next
    case new
    note unf = setParams_new_function [OF new, of r0]
    obtain e1 fs where rb: "rebindLoop (objectiveFunctions key) (fireflies s) = (e1, fs)"
      by (metis surj_pair)
    show ?thesis
    proof (cases e1)
      case (Some err)
      with rb show ?thesis by (simp add: unf)
    next
      case None
      obtain e2 s2 r2 where ub: "updateBest (s\<lparr> params := mergeParams (params s) np,
                              algObjectiveFunction := objectiveFunctions key,
                              fireflies := fs, bestFirefly := None \<rparr>) r0 = (e2, s2, r2)"
        by (metis prod_cases3)
      from updateBest_frame [OF ub] have p2: "params s2 = mergeParams (params s) np" by simp
      show ?thesis
      proof (cases e2)
        case (Some err)
        with rb None ub p2 show ?thesis by (simp add: unf)
      next
        case n2: None
        show ?thesis
        proof (cases "case new_n np of None \<Rightarrow> False | Some k \<Rightarrow> k \<noteq> 0 \<and> k \<noteq> param_n (params s)")
          case False
          with rb None ub n2 p2 show ?thesis by (simp add: unf)
        next
          case True
          obtain e3 s3 r3 where ad: "adjustPopulation s2
              (case new_n np of Some k \<Rightarrow> k | None \<Rightarrow> 0) r2 = (e3, s3, r3)"
            by (metis prod_cases3)
          from adjustPopulation_frame [OF ad] rb None ub n2 p2 True ad show ?thesis
            by (simp add: unf)
        qed
      qed
    qed
  qed
qed

lemma setParams_error:
  assumes "fst (setParams s np r0) = Some e"
  shows "e = TypeError"
proof -
  consider (same) "new_functionKey np = None \<or> new_functionKey np = Some [] \<or>
      new_functionKey np = Some (param_functionKey (params s))"
    | (new) key where "new_functionKey np = Some key" "key \<noteq> []"
      "key \<noteq> param_functionKey (params s)"
    using setParams_cases [of np s] by blast
  then show ?thesis
  proof cases
    case same
    from assms show ?thesis
      unfolding setParams_same_function [OF same]
      by (auto split: if_splits dest: adjustPopulation_error_fst)
  next
    case new
    from assms show ?thesis
      unfolding setParams_new_function [OF new]
      by (auto split: if_splits prod.splits option.splits
          dest: adjustPopulation_error_fst updateBest_error rebindLoop_error)
  qed
qed

text \<open>
  Arguments of \<open>setParams\<close>: a negative \<open>gamma\<close>, a negative \<open>n\<close> and a function key that the
  registry does not have.
\<close>

definition no_params :: new_params where
  "no_params =
    \<lparr> new_n = None, new_gamma = None, new_beta0 = None, new_alpha = None,
      new_functionKey = None \<rparr>"

definition negative_gamma :: new_params where
  "negative_gamma = no_params\<lparr> new_gamma := Some (- 1) \<rparr>"

definition negative_n :: new_params where
  "negative_n = no_params\<lparr> new_n := Some (- 1) \<rparr>"

definition unknown_key :: new_params where
  "unknown_key = no_params\<lparr> new_functionKey := Some ''bogus'' \<rparr>"

lemma sample_negative_gamma:
  "setParams sample_swarm negative_gamma zero_draws =
     (None, sample_swarm\<lparr> params := sample_params\<lparr> param_gamma := - 1 \<rparr> \<rparr>, zero_draws)"
  by (simp add: setParams_same_function negative_gamma_def no_params_def mergeParams_def
      sample_swarm_def sample_params_def)

lemma sample_negative_n:
  "setParams sample_swarm negative_n zero_draws =
     (None, sample_swarm\<lparr> params := sample_params\<lparr> param_n := - 1 \<rparr>,
                          fireflies := [sample_b] \<rparr>, zero_draws)"
  by (simp add: setParams_same_function negative_n_def no_params_def mergeParams_def
      sample_swarm_def sample_params_def adjustPopulation_def slice0_def sample_values)

lemma sample_unknown_key:
  "setParams sample_swarm unknown_key zero_draws =
     (Some TypeError,
      sample_swarm\<lparr> params := sample_params\<lparr> param_functionKey := ''bogus'' \<rparr>,
                    algObjectiveFunction := None,
                    fireflies := [sample_a\<lparr> objectiveFunction := None \<rparr>, sample_b] \<rparr>,
      zero_draws)"
proof -
  have k: "new_functionKey unknown_key = Some ''bogus''" "''bogus'' \<noteq> []"
    "''bogus'' \<noteq> param_functionKey (params sample_swarm)"
    by (simp_all add: unknown_key_def no_params_def sample_swarm_def sample_params_def)
  have o: "objectiveFunctions ''bogus'' = None"
    by (simp add: objectiveFunctions_def)
  show ?thesis
    unfolding setParams_new_function [OF k] o
    by (simp add: unknown_key_def no_params_def mergeParams_def sample_swarm_def
        sample_params_def)
qed

text \<open>
  Claim C1, as stated, fails on the sample swarm. With \<open>gamma = -1\<close> the call completes and
  stores \<open>-1\<close>. With \<open>n = -1\<close> the call completes, stores \<open>-1\<close> and drops the firefly of
  highest value (\<open>slice(0, -1)\<close>). With the key \<open>bogus\<close> the call throws a \<open>TypeError\<close> after it
  has stored the key, set the objective function of the algorithm to \<open>undefined\<close> and that of
  the first firefly too.
\<close>

theorem setParams_validation_counterexample:
  "param_gamma (params sample_swarm) = 0 \<and>
   setParams sample_swarm negative_gamma zero_draws =
     (None, sample_swarm\<lparr> params := sample_params\<lparr> param_gamma := - 1 \<rparr> \<rparr>, zero_draws) \<and>
   fireflies sample_swarm = [sample_a, sample_b] \<and>
   setParams sample_swarm negative_n zero_draws =
     (None, sample_swarm\<lparr> params := sample_params\<lparr> param_n := - 1 \<rparr>,
                          fireflies := [sample_b] \<rparr>, zero_draws) \<and>
   setParams sample_swarm unknown_key zero_draws =
     (Some TypeError,
      sample_swarm\<lparr> params := sample_params\<lparr> param_functionKey := ''bogus'' \<rparr>,
                    algObjectiveFunction := None,
                    fireflies := [sample_a\<lparr> objectiveFunction := None \<rparr>, sample_b] \<rparr>,
      zero_draws)"
  using sample_negative_gamma sample_negative_n sample_unknown_key
  by (simp add: sample_swarm_def sample_params_def)

text \<open>
  Claim C1, amended. \<open>setParams\<close> performs no validation: on every state and every argument
  it stores the supplied \<open>n\<close>, \<open>gamma\<close>, \<open>beta0\<close>, \<open>alpha\<close> and \<open>functionKey\<close> in \<open>params\<close> as given,
  and it never fails with \<open>UnknownFunctionKey\<close> or \<open>InvalidParameter\<close>. When neither
  \<open>functionKey\<close> nor \<open>n\<close> is supplied, the call completes and leaves the population,
  \<open>generation\<close> and \<open>bestFirefly\<close> unchanged.
\<close>

theorem setParams_no_validation:
  "params (fst (snd (setParams s np r0))) = mergeParams (params s) np \<and>
   fst (setParams s np r0) \<noteq> Some UnknownFunctionKey \<and>
   fst (setParams s np r0) \<noteq> Some InvalidParameter \<and>
   (new_functionKey np = None \<and> new_n np = None \<longrightarrow>
      setParams s np r0 = (None, s\<lparr> params := mergeParams (params s) np \<rparr>, r0))"
proof (intro conjI impI)
  show "params (fst (snd (setParams s np r0))) = mergeParams (params s) np"
    by (rule setParams_params)
  show "fst (setParams s np r0) \<noteq> Some UnknownFunctionKey"
    using setParams_error [of s np r0 UnknownFunctionKey] by auto
  show "fst (setParams s np r0) \<noteq> Some InvalidParameter"
    using setParams_error [of s np r0 InvalidParameter] by auto
  assume "new_functionKey np = None \<and> new_n np = None"
  then show "setParams s np r0 = (None, s\<lparr> params := mergeParams (params s) np \<rparr>, r0)"
    by (simp add: setParams_same_function)
qed

theorem setParams_no_validation_witness:
  "new_functionKey negative_gamma = None \<and> new_n negative_gamma = None \<and>
   new_gamma negative_gamma = Some (- 1) \<and>
   mergeParams (params sample_swarm) negative_gamma = sample_params\<lparr> param_gamma := - 1 \<rparr> \<and>
   setParams sample_swarm negative_gamma zero_draws =
     (None, sample_swarm\<lparr> params := sample_params\<lparr> param_gamma := - 1 \<rparr> \<rparr>, zero_draws)"
proof -
  have h: "new_functionKey negative_gamma = None \<and> new_n negative_gamma = None"
    "new_gamma negative_gamma = Some (- 1)"
    by (simp_all add: negative_gamma_def no_params_def)
  have m: "mergeParams (params sample_swarm) negative_gamma = sample_params\<lparr> param_gamma := - 1 \<rparr>"
    by (simp add: mergeParams_def negative_gamma_def no_params_def sample_swarm_def
        sample_params_def)
  from setParams_no_validation [of sample_swarm negative_gamma zero_draws] h(1)
  have "setParams sample_swarm negative_gamma zero_draws =
      (None, sample_swarm\<lparr> params := mergeParams (params sample_swarm) negative_gamma \<rparr>, zero_draws)"
    by blast
  then show ?thesis
    using h m by simp
qed

section \<open>setParams: the size of the population\<close>

text \<open>
  A firefly as the constructor leaves it under the objective function \<open>obj\<close>: evaluated at its
  position, with an empty trail and an idle flash state, at a position
  \<open>min + u * (max - min)\<close> on each axis for two draws \<open>u\<close> of the sequence \<open>r\<close>.
\<close>

definition fresh_agent :: "objective_function \<Rightarrow> rand \<Rightarrow> firefly \<Rightarrow> bool" where
  "fresh_agent obj r f \<longleftrightarrow>
    objectiveFunction f = Some obj \<and>
    fvalue f = fn obj (pos_x f) (pos_y f) \<and> brightness f = - fvalue f \<and>
    trail f = [] \<and> \<not> isFlashing f \<and> flashIntensity f = 0 \<and>
    \<not> isResponding f \<and> responseDelay f = 0 \<and>
    (\<exists>i j. pos_x f = xMin (domain obj) + r i * (xMax (domain obj) - xMin (domain obj)) \<and>
           pos_y f = yMin (domain obj) + r j * (yMax (domain obj) - yMin (domain obj)))"

lemma fresh_agent_shift:
  assumes "fresh_agent obj (\<lambda>k. r (k + c)) f"
  shows "fresh_agent obj r f"
  using assms unfolding fresh_agent_def by blast

lemma fresh_agent_in_domain:
  assumes "fresh_agent obj r f" and "unit_draws r"
    and "xMin (domain obj) \<le> xMax (domain obj)" and "yMin (domain obj) \<le> yMax (domain obj)"
  shows "xMin (domain obj) \<le> pos_x f \<and> pos_x f \<le> xMax (domain obj) \<and>
    yMin (domain obj) \<le> pos_y f \<and> pos_y f \<le> yMax (domain obj)"
proof -
  have span: "a \<le> a + u * (b - a) \<and> a + u * (b - a) \<le> b"
    if "0 \<le> u" "u < 1" "a \<le> b" for a b u :: real
  proof
    show "a \<le> a + u * (b - a)" using that by simp
    have "u * (b - a) \<le> 1 * (b - a)"
      using that by (intro mult_right_mono) simp_all
    then show "a + u * (b - a) \<le> b" by simp
  qed
  from assms(1) obtain i j where
    x: "pos_x f = xMin (domain obj) + r i * (xMax (domain obj) - xMin (domain obj))" and
    y: "pos_y f = yMin (domain obj) + r j * (yMax (domain obj) - yMin (domain obj))"
    unfolding fresh_agent_def by blast
  have "0 \<le> r i" "r i < 1" "0 \<le> r j" "r j < 1"
    using assms(2) by (simp_all add: unit_draws_def)
  then show ?thesis
    unfolding x y using span assms(3,4) by blast
qed

lemma newFirefly_fresh:
  "\<exists>c. newFirefly (xMin (domain obj) + r 0 * (xMax (domain obj) - xMin (domain obj)))
          (yMin (domain obj) + r (Suc 0) * (yMax (domain obj) - yMin (domain obj)))
          (Some obj) (\<lambda>k. r (Suc (Suc k))) = (Inr c, \<lambda>k. r (k + 6)) \<and>
       fresh_agent obj r c"
  unfolding fresh_agent_def
  by (simp add: newFirefly_def random_def evaluate_def Let_def eval_nat_numeral) blast

lemma growLoop_fresh:
  "\<exists>fresh r'. growLoop newN (Some obj) (domain obj) fs r = (None, fs @ fresh, r') \<and>
     int (length (fs @ fresh)) = max (int (length fs)) newN \<and>
     (\<forall>f \<in> set fresh. fresh_agent obj r f)"
proof (induction "nat (newN - int (length fs))" arbitrary: fs r)
  case 0
  then have ge: "\<not> int (length fs) < newN" by simp
  then have "growLoop newN (Some obj) (domain obj) fs r = (None, fs @ [], r)"
    by (subst growLoop_unfold) simp
  moreover have "int (length (fs @ [])) = max (int (length fs)) newN"
    using ge by simp
  ultimately show ?case by (metis empty_iff empty_set)
next
  case (Suc n)
  then have lt: "int (length fs) < newN" by simp
  obtain c where c: "newFirefly (xMin (domain obj) + r 0 * (xMax (domain obj) - xMin (domain obj)))
          (yMin (domain obj) + r (Suc 0) * (yMax (domain obj) - yMin (domain obj)))
          (Some obj) (\<lambda>k. r (Suc (Suc k))) = (Inr c, \<lambda>k. r (k + 6))"
    and fc: "fresh_agent obj r c"
    using newFirefly_fresh by blast
  have "n = nat (newN - int (length (fs @ [c])))"
    using Suc.hyps(2) by simp
  from Suc.hyps(1) [OF this, of "\<lambda>k. r (k + 6)"] obtain fresh r' where
    g: "growLoop newN (Some obj) (domain obj) (fs @ [c]) (\<lambda>k. r (k + 6)) = (None, (fs @ [c]) @ fresh, r')"
    and len: "int (length ((fs @ [c]) @ fresh)) = max (int (length (fs @ [c]))) newN"
    and fr: "\<forall>f \<in> set fresh. fresh_agent obj (\<lambda>k. r (k + 6)) f"
    by blast
  have "growLoop newN (Some obj) (domain obj) fs r = (None, fs @ (c # fresh), r')"
    using lt c g by (subst growLoop_unfold) simp
  moreover have "int (length (fs @ (c # fresh))) = max (int (length fs)) newN"
    using len lt by simp
  moreover have "\<forall>f \<in> set (c # fresh). fresh_agent obj r f"
    using fc fr fresh_agent_shift by auto
  ultimately show ?case by blast
qed

lemma lowest_kept:
  fixes fs :: "firefly list"
  defines "ordered \<equiv> sort_key fvalue fs"
  assumes "n \<le> length fs"
  shows "length (take n ordered) = n"
    and "mset (take n ordered) + mset (drop n ordered) = mset fs"
    and "sorted (map fvalue (take n ordered))"
    and "\<forall>a \<in> set (take n ordered). \<forall>b \<in> set (drop n ordered). fvalue a \<le> fvalue b"
    and "\<forall>v. \<exists>rest. filter (\<lambda>f. fvalue f = v) fs = filter (\<lambda>f. fvalue f = v) (take n ordered) @ rest"
proof -
  show "length (take n ordered) = n"
    using assms by simp
  have "mset (take n ordered) + mset (drop n ordered) = mset (take n ordered @ drop n ordered)"
    by (simp only: mset_append)
  also have "\<dots> = mset fs"
    by (simp add: ordered_def)
  finally show "mset (take n ordered) + mset (drop n ordered) = mset fs" .
  have so: "sorted (map fvalue (take n ordered @ drop n ordered))"
    by (simp add: ordered_def)
  then show "sorted (map fvalue (take n ordered))"
    by (simp only: map_append sorted_append)
  from so show "\<forall>a \<in> set (take n ordered). \<forall>b \<in> set (drop n ordered). fvalue a \<le> fvalue b"
    by (simp only: map_append sorted_append) auto
  show "\<forall>v. \<exists>rest. filter (\<lambda>f. fvalue f = v) fs = filter (\<lambda>f. fvalue f = v) (take n ordered) @ rest"
  proof
    fix v
    have "filter (\<lambda>f. fvalue f = v) fs = filter (\<lambda>f. fvalue f = v) ordered"
      by (simp add: ordered_def sort_key_stable)
    also have "\<dots> = filter (\<lambda>f. fvalue f = v) (take n ordered @ drop n ordered)"
      by simp
    also have "\<dots> = filter (\<lambda>f. fvalue f = v) (take n ordered) @ filter (\<lambda>f. fvalue f = v) (drop n ordered)"
      by (simp only: filter_append)
    finally show "\<exists>rest. filter (\<lambda>f. fvalue f = v) fs = filter (\<lambda>f. fvalue f = v) (take n ordered) @ rest"
      by blast
  qed
qed

lemma setParams_resize_unfold:
  assumes "new_functionKey np = None" and "new_n np = Some newN" and "newN \<noteq> 0"
    and "newN \<noteq> param_n (params s)"
  shows "setParams s np r0 = adjustPopulation (s\<lparr> params := mergeParams (params s) np \<rparr>) newN r0"
  using assms by (simp add: setParams_same_function)

lemma setParams_shrink:
  assumes "algObjectiveFunction s = Some obj" and "new_functionKey np = None"
    and "new_n np = Some newN" and "0 < newN" and "newN \<noteq> param_n (params s)"
    and "newN < int (length (fireflies s))"
  shows "setParams s np r0 =
    (None, s\<lparr> params := mergeParams (params s) np,
               fireflies := take (nat newN) (sort_key fvalue (fireflies s)) \<rparr>, r0)"
proof -
  have "setParams s np r0 = adjustPopulation (s\<lparr> params := mergeParams (params s) np \<rparr>) newN r0"
    using assms by (intro setParams_resize_unfold) simp_all
  then show ?thesis
    using assms by (simp add: adjustPopulation_def slice0_def)
qed

lemma setParams_grow:
  assumes "algObjectiveFunction s = Some obj" and "new_functionKey np = None"
    and "new_n np = Some newN" and "0 < newN" and "newN \<noteq> param_n (params s)"
    and "int (length (fireflies s)) < newN"
  shows "\<exists>fresh r1. setParams s np r0 =
      (None, s\<lparr> params := mergeParams (params s) np, fireflies := fireflies s @ fresh \<rparr>, r1) \<and>
    length (fireflies s @ fresh) = nat newN \<and> (\<forall>f \<in> set fresh. fresh_agent obj r0 f)"
proof -
  have u: "setParams s np r0 = adjustPopulation (s\<lparr> params := mergeParams (params s) np \<rparr>) newN r0"
    using assms by (intro setParams_resize_unfold) simp_all
  obtain fresh r' where
    g: "growLoop newN (Some obj) (domain obj) (fireflies s) r0 = (None, fireflies s @ fresh, r')"
    and len: "int (length (fireflies s @ fresh)) = max (int (length (fireflies s))) newN"
    and fr: "\<forall>f \<in> set fresh. fresh_agent obj r0 f"
    using growLoop_fresh by blast
  have "setParams s np r0 =
      (None, s\<lparr> params := mergeParams (params s) np, fireflies := fireflies s @ fresh \<rparr>, r')"
    unfolding u using assms(1,6) g by (simp add: adjustPopulation_def)
  moreover have "length (fireflies s @ fresh) = nat newN"
    using len assms(6) by linarith
  ultimately show ?thesis using fr by blast
qed

lemma setParams_resize_frame:
  assumes "new_functionKey np = None"
  shows "generation (fst (snd (setParams s np r0))) = generation s \<and>
    bestFirefly (fst (snd (setParams s np r0))) = bestFirefly s"
proof (cases "case new_n np of None \<Rightarrow> False | Some k \<Rightarrow> k \<noteq> 0 \<and> k \<noteq> param_n (params s)")
  case False
  then show ?thesis using assms by (simp add: setParams_same_function)
next
  case True
  obtain e s' r' where ad: "adjustPopulation (s\<lparr> params := mergeParams (params s) np \<rparr>)
        (case new_n np of Some k \<Rightarrow> k | None \<Rightarrow> 0) r0 = (e, s', r')"
    by (metis prod_cases3)
  from adjustPopulation_frame [OF ad] True ad assms show ?thesis
    by (simp add: setParams_same_function)
qed

text \<open>Arguments of \<open>setParams\<close> that ask for one and for three fireflies.\<close>

definition one_agent :: new_params where
  "one_agent = no_params\<lparr> new_n := Some 1 \<rparr>"

definition three_agents :: new_params where
  "three_agents = no_params\<lparr> new_n := Some 3 \<rparr>"

text \<open>
  Claim C5. Let \<open>setParams\<close> be given no function key and an \<open>n > 0\<close> other than \<open>params.n\<close>
  (which is the size of the population in every state the constructor and \<open>setParams\<close> with
  valid arguments produce), on a swarm whose objective function is defined. If \<open>n\<close> is smaller
  than the population, the population becomes the first \<open>n\<close> fireflies of the population
  sorted stably by ascending value: \<open>n\<close> fireflies, which with the dropped ones make up the
  old population, none of a higher value than a dropped one, and for every value the kept
  fireflies of that value are the first ones of the old order. If \<open>n\<close> is larger, fresh
  fireflies are appended until the size is \<open>n\<close>, each evaluated under the current objective
  function at a random position that lies within the domain (for draws in \<open>[0, 1)\<close>). In
  every case \<open>generation\<close> and \<open>bestFirefly\<close> are unchanged.
\<close>

theorem setParams_resize_population:
  assumes "algObjectiveFunction s = Some obj" and "new_functionKey np = None"
    and "new_n np = Some newN" and "0 < newN" and "newN \<noteq> param_n (params s)"
  shows "(newN < int (length (fireflies s)) \<longrightarrow>
      (let ordered = sort_key fvalue (fireflies s);
           kept = take (nat newN) ordered;
           dropped = drop (nat newN) ordered
       in setParams s np r0 =
            (None, s\<lparr> params := mergeParams (params s) np, fireflies := kept \<rparr>, r0) \<and>
          length kept = nat newN \<and>
          mset kept + mset dropped = mset (fireflies s) \<and>
          sorted (map fvalue kept) \<and>
          (\<forall>a \<in> set kept. \<forall>b \<in> set dropped. fvalue a \<le> fvalue b) \<and>
          (\<forall>v. \<exists>rest. filter (\<lambda>f. fvalue f = v) (fireflies s) =
                         filter (\<lambda>f. fvalue f = v) kept @ rest)))
    \<and> (int (length (fireflies s)) < newN \<longrightarrow>
      (\<exists>fresh r1.
          setParams s np r0 =
            (None, s\<lparr> params := mergeParams (params s) np,
                       fireflies := fireflies s @ fresh \<rparr>, r1) \<and>
          length (fireflies s @ fresh) = nat newN \<and>
          (\<forall>f \<in> set fresh.
             fresh_agent obj r0 f \<and>
             (unit_draws r0 \<and> xMin (domain obj) \<le> xMax (domain obj) \<and>
              yMin (domain obj) \<le> yMax (domain obj) \<longrightarrow>
                xMin (domain obj) \<le> pos_x f \<and> pos_x f \<le> xMax (domain obj) \<and>
                yMin (domain obj) \<le> pos_y f \<and> pos_y f \<le> yMax (domain obj)))))
    \<and> generation (fst (snd (setParams s np r0))) = generation s
    \<and> bestFirefly (fst (snd (setParams s np r0))) = bestFirefly s"
proof (intro conjI impI)
  assume lt: "newN < int (length (fireflies s))"
  then have n: "nat newN \<le> length (fireflies s)" by simp
  show "let ordered = sort_key fvalue (fireflies s);
           kept = take (nat newN) ordered;
           dropped = drop (nat newN) ordered
       in setParams s np r0 =
            (None, s\<lparr> params := mergeParams (params s) np, fireflies := kept \<rparr>, r0) \<and>
          length kept = nat newN \<and>
          mset kept + mset dropped = mset (fireflies s) \<and>
          sorted (map fvalue kept) \<and>
          (\<forall>a \<in> set kept. \<forall>b \<in> set dropped. fvalue a \<le> fvalue b) \<and>
          (\<forall>v. \<exists>rest. filter (\<lambda>f. fvalue f = v) (fireflies s) =
                         filter (\<lambda>f. fvalue f = v) kept @ rest)"
    unfolding Let_def
    using setParams_shrink [OF assms lt, of r0] lowest_kept [OF n] by blast
next
  assume gt: "int (length (fireflies s)) < newN"
  obtain fresh r1 where
    sp: "setParams s np r0 =
      (None, s\<lparr> params := mergeParams (params s) np, fireflies := fireflies s @ fresh \<rparr>, r1)"
    and len: "length (fireflies s @ fresh) = nat newN"
    and fr: "\<forall>f \<in> set fresh. fresh_agent obj r0 f"
    using setParams_grow [OF assms gt, of r0] by blast
  have "\<forall>f \<in> set fresh.
             fresh_agent obj r0 f \<and>
             (unit_draws r0 \<and> xMin (domain obj) \<le> xMax (domain obj) \<and>
              yMin (domain obj) \<le> yMax (domain obj) \<longrightarrow>
                xMin (domain obj) \<le> pos_x f \<and> pos_x f \<le> xMax (domain obj) \<and>
                yMin (domain obj) \<le> pos_y f \<and> pos_y f \<le> yMax (domain obj))"
    using fr fresh_agent_in_domain by blast
  with sp len show "\<exists>fresh r1.
          setParams s np r0 =
            (None, s\<lparr> params := mergeParams (params s) np,
                       fireflies := fireflies s @ fresh \<rparr>, r1) \<and>
          length (fireflies s @ fresh) = nat newN \<and>
          (\<forall>f \<in> set fresh.
             fresh_agent obj r0 f \<and>
             (unit_draws r0 \<and> xMin (domain obj) \<le> xMax (domain obj) \<and>
              yMin (domain obj) \<le> yMax (domain obj) \<longrightarrow>
                xMin (domain obj) \<le> pos_x f \<and> pos_x f \<le> xMax (domain obj) \<and>
                yMin (domain obj) \<le> pos_y f \<and> pos_y f \<le> yMax (domain obj)))"
    by blast
next
  show "generation (fst (snd (setParams s np r0))) = generation s"
    using setParams_resize_frame [OF assms(2)] by simp
  show "bestFirefly (fst (snd (setParams s np r0))) = bestFirefly s"
    using setParams_resize_frame [OF assms(2)] by simp
qed

theorem setParams_resize_population_witness:
  "algObjectiveFunction sample_swarm = Some sphere \<and>
   new_functionKey one_agent = None \<and> new_n one_agent = Some 1 \<and>
   new_functionKey three_agents = None \<and> new_n three_agents = Some 3 \<and>
   param_n (params sample_swarm) = 2 \<and> fireflies sample_swarm = [sample_a, sample_b] \<and>
   fvalue sample_a = 25 \<and> fvalue sample_b = 1 \<and>
   unit_draws zero_draws \<and>
   xMin (domain sphere) \<le> xMax (domain sphere) \<and> yMin (domain sphere) \<le> yMax (domain sphere) \<and>
   setParams sample_swarm one_agent zero_draws =
     (None, sample_swarm\<lparr> params := sample_params\<lparr> param_n := 1 \<rparr>, fireflies := [sample_b] \<rparr>,
      zero_draws) \<and>
   (\<exists>fresh r1.
      setParams sample_swarm three_agents zero_draws =
        (None, sample_swarm\<lparr> params := sample_params\<lparr> param_n := 3 \<rparr>,
                             fireflies := [sample_a, sample_b] @ fresh \<rparr>, r1) \<and>
      length fresh = 1 \<and>
      (\<forall>f \<in> set fresh. fresh_agent sphere zero_draws f \<and> - 5 \<le> pos_x f \<and> pos_x f \<le> 5 \<and>
         - 5 \<le> pos_y f \<and> pos_y f \<le> 5)) \<and>
   generation (fst (snd (setParams sample_swarm three_agents zero_draws))) = generation sample_swarm \<and>
   bestFirefly (fst (snd (setParams sample_swarm three_agents zero_draws))) = bestFirefly sample_swarm"
proof -
  have o: "algObjectiveFunction sample_swarm = Some sphere"
    and p: "param_n (params sample_swarm) = 2"
    and f: "fireflies sample_swarm = [sample_a, sample_b]"
    by (simp_all add: sample_swarm_def sample_params_def)
  have a1: "new_functionKey one_agent = None" "new_n one_agent = Some 1"
    and a3: "new_functionKey three_agents = None" "new_n three_agents = Some 3"
    by (simp_all add: one_agent_def three_agents_def no_params_def)
  have u: "unit_draws zero_draws"
    by (simp add: unit_draws_def zero_draws_def)
  have d: "xMin (domain sphere) = - 5" "xMax (domain sphere) = 5"
    "yMin (domain sphere) = - 5" "yMax (domain sphere) = 5"
    by (simp_all add: sphere_def)
  have m1: "mergeParams (params sample_swarm) one_agent = sample_params\<lparr> param_n := 1 \<rparr>"
    and m3: "mergeParams (params sample_swarm) three_agents = sample_params\<lparr> param_n := 3 \<rparr>"
    by (simp_all add: mergeParams_def one_agent_def three_agents_def no_params_def
        sample_swarm_def sample_params_def)
  have srt: "take (nat 1) (sort_key fvalue [sample_a, sample_b]) = [sample_b]"
    by (simp add: sample_values)
  have n1: "(0 :: int) < 1" "(1 :: int) \<noteq> param_n (params sample_swarm)"
    and n3: "(0 :: int) < 3" "(3 :: int) \<noteq> param_n (params sample_swarm)"
    by (simp_all add: p)
  note shrink = setParams_resize_population [OF o a1 n1, of zero_draws, THEN conjunct1, unfolded f]
  note grow = setParams_resize_population [OF o a3 n3, of zero_draws, THEN conjunct2, unfolded f]
  have lt: "1 < int (length [sample_a, sample_b])" by simp
  have gt: "int (length [sample_a, sample_b]) < 3" by simp
  from shrink [THEN mp, OF lt]
  have "setParams sample_swarm one_agent zero_draws =
     (None, sample_swarm\<lparr> params := mergeParams (params sample_swarm) one_agent,
        fireflies := take (nat 1) (sort_key fvalue [sample_a, sample_b]) \<rparr>, zero_draws)"
    unfolding Let_def by (rule conjunct1)
  then have s1: "setParams sample_swarm one_agent zero_draws =
     (None, sample_swarm\<lparr> params := sample_params\<lparr> param_n := 1 \<rparr>, fireflies := [sample_b] \<rparr>,
      zero_draws)"
    unfolding m1 srt .
  from grow [THEN conjunct1, THEN mp, OF gt] obtain fresh r1 where
    g: "setParams sample_swarm three_agents zero_draws =
      (None, sample_swarm\<lparr> params := mergeParams (params sample_swarm) three_agents,
                           fireflies := [sample_a, sample_b] @ fresh \<rparr>, r1)"
    and gl: "length ([sample_a, sample_b] @ fresh) = nat 3"
    and gf0: "\<forall>f \<in> set fresh. fresh_agent sphere zero_draws f \<and>
         (unit_draws zero_draws \<and> xMin (domain sphere) \<le> xMax (domain sphere) \<and>
              yMin (domain sphere) \<le> yMax (domain sphere) \<longrightarrow>
                xMin (domain sphere) \<le> pos_x f \<and> pos_x f \<le> xMax (domain sphere) \<and>
                yMin (domain sphere) \<le> pos_y f \<and> pos_y f \<le> yMax (domain sphere))"
    by blast
  have gf: "\<forall>f \<in> set fresh. fresh_agent sphere zero_draws f \<and>
         - 5 \<le> pos_x f \<and> pos_x f \<le> 5 \<and> - 5 \<le> pos_y f \<and> pos_y f \<le> 5"
    using gf0 u by (simp add: d)
  note g = g [unfolded m3]
  note fr0 = grow [THEN conjunct2]
  from gl have gl1: "length fresh = 1" by simp
  have fr: "generation (fst (snd (setParams sample_swarm three_agents zero_draws))) = generation sample_swarm"
    "bestFirefly (fst (snd (setParams sample_swarm three_agents zero_draws))) = bestFirefly sample_swarm"
    using fr0 by simp_all
  have ex: "\<exists>fresh r1.
      setParams sample_swarm three_agents zero_draws =
        (None, sample_swarm\<lparr> params := sample_params\<lparr> param_n := 3 \<rparr>,
                             fireflies := [sample_a, sample_b] @ fresh \<rparr>, r1) \<and>
      length fresh = 1 \<and>
      (\<forall>f \<in> set fresh. fresh_agent sphere zero_draws f \<and> - 5 \<le> pos_x f \<and> pos_x f \<le> 5 \<and>
         - 5 \<le> pos_y f \<and> pos_y f \<le> 5)"
    using g gl1 gf by blast
  show ?thesis
    using o a1 a3 p f u d s1 ex fr sample_values by simp
qed

section \<open>setParams: a new objective function\<close>

text \<open>
  What the loop of \<open>setParams\<close> makes of one firefly when the new objective function \<open>obj\<close> is
  defined: the reference is rebound, the position clamped to the domain of \<open>obj\<close>, the value and
  the brightness recomputed.
\<close>

definition rebound :: "objective_function \<Rightarrow> firefly \<Rightarrow> firefly" where
  "rebound obj f =
    (let g = clampToDomain (f\<lparr> objectiveFunction := Some obj \<rparr>) (domain obj)
     in g\<lparr> fvalue := fn obj (pos_x g) (pos_y g), brightness := - fn obj (pos_x g) (pos_y g) \<rparr>)"

lemma registered_function:
  assumes "objectiveFunctions key = Some obj"
  shows "key \<noteq> [] \<and> xMin (domain obj) \<le> xMax (domain obj) \<and> yMin (domain obj) \<le> yMax (domain obj)"
proof -
  have "obj \<in> {michalewicz, rastrigin, rosenbrock, himmelblau, sphere}"
    using assms by (auto simp: objectiveFunctions_def split: if_splits)
  then have "xMin (domain obj) \<le> xMax (domain obj) \<and> yMin (domain obj) \<le> yMax (domain obj)"
    by (auto simp: michalewicz_def rastrigin_def rosenbrock_def himmelblau_def sphere_def)
  moreover have "key \<noteq> []"
    using assms by (auto simp: objectiveFunctions_def)
  ultimately show ?thesis by simp
qed

lemma rebindLoop_defined: "rebindLoop (Some obj) fs = (None, map (rebound obj) fs)"
  by (induction fs) (simp_all add: rebound_def evaluate_def clampToDomain_def Let_def)

lemma rebound_fields:
  assumes "xMin (domain obj) \<le> xMax (domain obj)" and "yMin (domain obj) \<le> yMax (domain obj)"
  shows "objectiveFunction (rebound obj f) = Some obj \<and>
    pos_x (rebound obj f) = max (xMin (domain obj)) (min (xMax (domain obj)) (pos_x f)) \<and>
    pos_y (rebound obj f) = max (yMin (domain obj)) (min (yMax (domain obj)) (pos_y f)) \<and>
    xMin (domain obj) \<le> pos_x (rebound obj f) \<and> pos_x (rebound obj f) \<le> xMax (domain obj) \<and>
    yMin (domain obj) \<le> pos_y (rebound obj f) \<and> pos_y (rebound obj f) \<le> yMax (domain obj) \<and>
    fvalue (rebound obj f) = fn obj (pos_x (rebound obj f)) (pos_y (rebound obj f)) \<and>
    brightness (rebound obj f) = - fvalue (rebound obj f)"
  using assms by (simp add: rebound_def clampToDomain_def Let_def)

lemma updateBest_empty:
  "fireflies s = [] \<Longrightarrow> updateBest s r = (Some TypeError, s, r)"
  by (simp add: updateBest_def)

lemma setParams_function_state:
  assumes "new_functionKey np = Some key" and "key \<noteq> param_functionKey (params s)"
    and "objectiveFunctions key = Some obj"
  shows "\<exists>e s' r1. setParams s np r0 = (e, s', r1) \<and>
    algObjectiveFunction s' = Some obj \<and> param_functionKey (params s') = key \<and>
    generation s' = generation s \<and>
    (new_n np = None \<longrightarrow> fireflies s' = map (rebound obj) (fireflies s)) \<and>
    (fireflies s = [] \<longrightarrow> bestFirefly s' = None) \<and>
    (fireflies s \<noteq> [] \<longrightarrow>
       (\<exists>m c rc. m \<in> set (map (rebound obj) (fireflies s)) \<and>
          (\<forall>g \<in> set (map (rebound obj) (fireflies s)). fvalue m \<le> fvalue g) \<and>
          clone m r0 = (Inr c, rc) \<and> bestFirefly s' = Some c))"
proof -
  note reg = registered_function [OF assms(3)]
  define P where "P = map (rebound obj) (fireflies s)"
  define s1 where "s1 = s\<lparr> params := mergeParams (params s) np,
      algObjectiveFunction := objectiveFunctions key, fireflies := P, bestFirefly := None \<rparr>"
  have k: "param_functionKey (mergeParams (params s) np) = key"
    using assms(1) by (simp add: mergeParams_def)
  have unf: "setParams s np r0 =
    (case updateBest s1 r0 of
       (Some e, s2, r2) \<Rightarrow> (Some e, s2, r2)
     | (None, s2, r2) \<Rightarrow>
         (if (case new_n np of None \<Rightarrow> False | Some k \<Rightarrow> k \<noteq> 0 \<and> k \<noteq> param_n (params s))
          then adjustPopulation s2 (case new_n np of Some k \<Rightarrow> k | None \<Rightarrow> 0) r2
          else (None, s2, r2)))"
    unfolding setParams_new_function [OF assms(1) reg [THEN conjunct1] assms(2)]
    by (simp add: assms(3) rebindLoop_defined s1_def P_def)
  show ?thesis
  proof (cases "fireflies s = []")
    case True
    then have "updateBest s1 r0 = (Some TypeError, s1, r0)"
      by (simp add: updateBest_empty s1_def P_def)
    then have "setParams s np r0 = (Some TypeError, s1, r0)"
      by (simp add: unf)
    then show ?thesis
      using True by (simp add: s1_def P_def assms(3) k)
  next
    case False
    have ne: "fireflies s1 \<noteq> []" and bn: "bestFirefly s1 = None"
      using False by (simp_all add: s1_def P_def)
    have df: "\<forall>f \<in> set (fireflies s1). objectiveFunction f \<noteq> None"
      by (simp add: s1_def P_def rebound_def clampToDomain_def Let_def)
    from updateBest_from_none [OF bn ne df, of r0] obtain m c where
      m: "m \<in> set (fireflies s1)" "\<forall>g \<in> set (fireflies s1). fvalue m \<le> fvalue g"
      and c: "clone m r0 = (Inr c, \<lambda>k. r0 (Suc (Suc (Suc (Suc k)))))"
      and ub: "updateBest s1 r0 = (None, s1\<lparr> bestFirefly := Some c \<rparr>, \<lambda>k. r0 (Suc (Suc (Suc (Suc k)))))"
      by blast
    define s2 where "s2 = s1\<lparr> bestFirefly := Some c \<rparr>"
    have fs1: "fireflies s1 = map (rebound obj) (fireflies s)"
      by (simp add: s1_def P_def)
    show ?thesis
    proof (cases "case new_n np of None \<Rightarrow> False | Some k \<Rightarrow> k \<noteq> 0 \<and> k \<noteq> param_n (params s)")
      case nochange: False
      then have "setParams s np r0 = (None, s2, \<lambda>k. r0 (Suc (Suc (Suc (Suc k)))))"
        by (simp add: unf ub s2_def)
      moreover have "algObjectiveFunction s2 = Some obj" "param_functionKey (params s2) = key"
        "generation s2 = generation s" "fireflies s2 = map (rebound obj) (fireflies s)"
        "bestFirefly s2 = Some c"
        by (simp_all add: s2_def s1_def P_def assms(3) k)
      ultimately show ?thesis
        using m c False unfolding fs1 by blast
    next
      case change: True
      then obtain newN where nn: "new_n np = Some newN"
        by (cases "new_n np") auto
      obtain e3 s3 r3 where ad: "adjustPopulation s2 newN (\<lambda>k. r0 (Suc (Suc (Suc (Suc k))))) = (e3, s3, r3)"
        by (metis prod_cases3)
      have "setParams s np r0 = (e3, s3, r3)"
        using change nn ad by (simp add: unf ub s2_def)
      moreover have "algObjectiveFunction s3 = Some obj" "param_functionKey (params s3) = key"
        "generation s3 = generation s" "bestFirefly s3 = Some c"
        using adjustPopulation_frame [OF ad]
        by (simp_all add: s2_def s1_def P_def assms(3) k)
      ultimately show ?thesis
        using m c False nn unfolding fs1 by auto
    qed
  qed
qed

text \<open>An argument of \<open>setParams\<close> that changes the function of the sample swarm.\<close>

definition to_himmelblau :: new_params where
  "to_himmelblau = no_params\<lparr> new_functionKey := Some ''himmelblau'' \<rparr>"

text \<open>
  Claim C6. Let \<open>setParams\<close> be given a registered function key other than the current one, and
  let \<open>obj\<close> be the function registered under it. After the call the algorithm's objective
  function is \<open>obj\<close>. There is a population \<open>P\<close>, one firefly for each firefly of the old
  population, that refers to \<open>obj\<close>, has the old position clamped into the domain of \<open>obj\<close>
  (so inside it) and the value and brightness of \<open>obj\<close> at that position; \<open>P\<close> is the new
  population when no \<open>n\<close> is given in the same call. \<open>bestFirefly\<close> is a clone of a firefly of
  least value of \<open>P\<close>, whatever best was stored before (and is \<open>null\<close> when \<open>P\<close> is empty).
\<close>

theorem setParams_changes_function:
  assumes "new_functionKey np = Some key" and "key \<noteq> param_functionKey (params s)"
    and "objectiveFunctions key = Some obj"
  shows "\<exists>e s' r1 P. setParams s np r0 = (e, s', r1) \<and>
    algObjectiveFunction s' = Some obj \<and> param_functionKey (params s') = key \<and>
    length P = length (fireflies s) \<and>
    (\<forall>k < length P.
       objectiveFunction (P ! k) = Some obj \<and>
       pos_x (P ! k) = max (xMin (domain obj)) (min (xMax (domain obj)) (pos_x (fireflies s ! k))) \<and>
       pos_y (P ! k) = max (yMin (domain obj)) (min (yMax (domain obj)) (pos_y (fireflies s ! k))) \<and>
       xMin (domain obj) \<le> pos_x (P ! k) \<and> pos_x (P ! k) \<le> xMax (domain obj) \<and>
       yMin (domain obj) \<le> pos_y (P ! k) \<and> pos_y (P ! k) \<le> yMax (domain obj) \<and>
       fvalue (P ! k) = fn obj (pos_x (P ! k)) (pos_y (P ! k)) \<and>
       brightness (P ! k) = - fvalue (P ! k)) \<and>
    (new_n np = None \<longrightarrow> fireflies s' = P) \<and>
    (P = [] \<longrightarrow> bestFirefly s' = None) \<and>
    (P \<noteq> [] \<longrightarrow>
       (\<exists>m c rc. m \<in> set P \<and> (\<forall>g \<in> set P. fvalue m \<le> fvalue g) \<and>
          clone m r0 = (Inr c, rc) \<and> bestFirefly s' = Some c))"
proof -
  note reg = registered_function [OF assms(3)]
  define P where "P = map (rebound obj) (fireflies s)"
  let ?X = "\<lambda>e s' r1. setParams s np r0 = (e, s', r1) \<and>
    algObjectiveFunction s' = Some obj \<and> param_functionKey (params s') = key \<and>
    generation s' = generation s \<and>
    (new_n np = None \<longrightarrow> fireflies s' = P) \<and>
    (fireflies s = [] \<longrightarrow> bestFirefly s' = None) \<and>
    (fireflies s \<noteq> [] \<longrightarrow>
       (\<exists>m c rc. m \<in> set P \<and> (\<forall>g \<in> set P. fvalue m \<le> fvalue g) \<and>
          clone m r0 = (Inr c, rc) \<and> bestFirefly s' = Some c))"
  have "\<exists>e s' r1. ?X e s' r1"
    using setParams_function_state [OF assms, of r0] unfolding P_def .
  then obtain e where "\<exists>s' r1. ?X e s' r1" ..
  then obtain s' where "\<exists>r1. ?X e s' r1" ..
  then obtain r1 where all: "?X e s' r1" ..
  note sp = all [THEN conjunct1]
  note rest1 = all [THEN conjunct2]
  note st = rest1 [THEN conjunct1] rest1 [THEN conjunct2, THEN conjunct1]
  note rest2 = rest1 [THEN conjunct2, THEN conjunct2, THEN conjunct2]
  note pop = rest2 [THEN conjunct1]
  note emp = rest2 [THEN conjunct2, THEN conjunct1]
  note best = rest2 [THEN conjunct2, THEN conjunct2]
  have len: "length P = length (fireflies s)"
    by (simp add: P_def)
  have fields: "\<forall>k < length P.
       objectiveFunction (P ! k) = Some obj \<and>
       pos_x (P ! k) = max (xMin (domain obj)) (min (xMax (domain obj)) (pos_x (fireflies s ! k))) \<and>
       pos_y (P ! k) = max (yMin (domain obj)) (min (yMax (domain obj)) (pos_y (fireflies s ! k))) \<and>
       xMin (domain obj) \<le> pos_x (P ! k) \<and> pos_x (P ! k) \<le> xMax (domain obj) \<and>
       yMin (domain obj) \<le> pos_y (P ! k) \<and> pos_y (P ! k) \<le> yMax (domain obj) \<and>
       fvalue (P ! k) = fn obj (pos_x (P ! k)) (pos_y (P ! k)) \<and>
       brightness (P ! k) = - fvalue (P ! k)"
  proof (intro allI impI)
    fix k assume "k < length P"
    then have pk: "P ! k = rebound obj (fireflies s ! k)"
      by (simp add: P_def)
    show "objectiveFunction (P ! k) = Some obj \<and>
       pos_x (P ! k) = max (xMin (domain obj)) (min (xMax (domain obj)) (pos_x (fireflies s ! k))) \<and>
       pos_y (P ! k) = max (yMin (domain obj)) (min (yMax (domain obj)) (pos_y (fireflies s ! k))) \<and>
       xMin (domain obj) \<le> pos_x (P ! k) \<and> pos_x (P ! k) \<le> xMax (domain obj) \<and>
       yMin (domain obj) \<le> pos_y (P ! k) \<and> pos_y (P ! k) \<le> yMax (domain obj) \<and>
       fvalue (P ! k) = fn obj (pos_x (P ! k)) (pos_y (P ! k)) \<and>
       brightness (P ! k) = - fvalue (P ! k)"
      unfolding pk
      by (rule rebound_fields [OF reg [THEN conjunct2, THEN conjunct1]
            reg [THEN conjunct2, THEN conjunct2]])
  qed
  have pe: "P = [] \<longleftrightarrow> fireflies s = []"
    by (simp add: P_def)
  note emp' = emp [folded pe]
  note best' = best [folded pe]
  have body: "setParams s np r0 = (e, s', r1) \<and>
    algObjectiveFunction s' = Some obj \<and> param_functionKey (params s') = key \<and>
    length P = length (fireflies s) \<and>
    (\<forall>k < length P.
       objectiveFunction (P ! k) = Some obj \<and>
       pos_x (P ! k) = max (xMin (domain obj)) (min (xMax (domain obj)) (pos_x (fireflies s ! k))) \<and>
       pos_y (P ! k) = max (yMin (domain obj)) (min (yMax (domain obj)) (pos_y (fireflies s ! k))) \<and>
       xMin (domain obj) \<le> pos_x (P ! k) \<and> pos_x (P ! k) \<le> xMax (domain obj) \<and>
       yMin (domain obj) \<le> pos_y (P ! k) \<and> pos_y (P ! k) \<le> yMax (domain obj) \<and>
       fvalue (P ! k) = fn obj (pos_x (P ! k)) (pos_y (P ! k)) \<and>
       brightness (P ! k) = - fvalue (P ! k)) \<and>
    (new_n np = None \<longrightarrow> fireflies s' = P) \<and>
    (P = [] \<longrightarrow> bestFirefly s' = None) \<and>
    (P \<noteq> [] \<longrightarrow>
       (\<exists>m c rc. m \<in> set P \<and> (\<forall>g \<in> set P. fvalue m \<le> fvalue g) \<and>
          clone m r0 = (Inr c, rc) \<and> bestFirefly s' = Some c))"
    using sp st len fields pop emp' best' by (intro conjI)
  show ?thesis
    by (rule exI [where x = e], rule exI [where x = s'], rule exI [where x = r1],
        rule exI [where x = P]) (rule body)
qed

theorem setParams_changes_function_witness:
  "new_functionKey to_himmelblau = Some ''himmelblau'' \<and>
   ''himmelblau'' \<noteq> param_functionKey (params sample_swarm) \<and>
   objectiveFunctions ''himmelblau'' = Some himmelblau \<and>
   new_n to_himmelblau = None \<and>
   fireflies sample_swarm = [sample_a, sample_b] \<and>
   (\<exists>b. bestFirefly sample_swarm = Some b \<and> fvalue b = 1) \<and>
   (\<exists>e s' r1. setParams sample_swarm to_himmelblau zero_draws = (e, s', r1) \<and>
      algObjectiveFunction s' = Some himmelblau \<and>
      map fvalue (fireflies s') = [148, 136] \<and>
      (\<exists>c. bestFirefly s' = Some c \<and> fvalue c = 136))"
proof -
  have h: "new_functionKey to_himmelblau = Some ''himmelblau''"
    "''himmelblau'' \<noteq> param_functionKey (params sample_swarm)"
    "objectiveFunctions ''himmelblau'' = Some himmelblau"
    and n: "new_n to_himmelblau = None"
    and f: "fireflies sample_swarm = [sample_a, sample_b]"
    and b: "\<exists>b. bestFirefly sample_swarm = Some b \<and> fvalue b = 1"
    by (simp_all add: to_himmelblau_def no_params_def sample_swarm_def sample_params_def
        objectiveFunctions_def sample_values)
  have d: "xMin (domain himmelblau) = - 5" "xMax (domain himmelblau) = 5"
    "yMin (domain himmelblau) = - 5" "yMax (domain himmelblau) = 5"
    and fn: "fn himmelblau 3 4 = 148" "fn himmelblau 1 0 = 136"
    by (simp_all add: himmelblau_def)
  have pos: "pos_x sample_a = 3" "pos_y sample_a = 4" "pos_x sample_b = 1" "pos_y sample_b = 0"
    by (simp_all add: sample_a_def sample_b_def)
  let ?X = "\<lambda>e s' r1 P. setParams sample_swarm to_himmelblau zero_draws = (e, s', r1) \<and>
    algObjectiveFunction s' = Some himmelblau \<and>
    param_functionKey (params s') = ''himmelblau'' \<and>
    length P = length (fireflies sample_swarm) \<and>
    (\<forall>k < length P.
       objectiveFunction (P ! k) = Some himmelblau \<and>
       pos_x (P ! k) = max (xMin (domain himmelblau))
         (min (xMax (domain himmelblau)) (pos_x (fireflies sample_swarm ! k))) \<and>
       pos_y (P ! k) = max (yMin (domain himmelblau))
         (min (yMax (domain himmelblau)) (pos_y (fireflies sample_swarm ! k))) \<and>
       xMin (domain himmelblau) \<le> pos_x (P ! k) \<and> pos_x (P ! k) \<le> xMax (domain himmelblau) \<and>
       yMin (domain himmelblau) \<le> pos_y (P ! k) \<and> pos_y (P ! k) \<le> yMax (domain himmelblau) \<and>
       fvalue (P ! k) = fn himmelblau (pos_x (P ! k)) (pos_y (P ! k)) \<and>
       brightness (P ! k) = - fvalue (P ! k)) \<and>
    (new_n to_himmelblau = None \<longrightarrow> fireflies s' = P) \<and>
    (P = [] \<longrightarrow> bestFirefly s' = None) \<and>
    (P \<noteq> [] \<longrightarrow>
       (\<exists>m c rc. m \<in> set P \<and> (\<forall>g \<in> set P. fvalue m \<le> fvalue g) \<and>
          clone m zero_draws = (Inr c, rc) \<and> bestFirefly s' = Some c))"
  have "\<exists>e s' r1 P. ?X e s' r1 P"
    by (rule setParams_changes_function [OF h, of zero_draws])
  then obtain e where "\<exists>s' r1 P. ?X e s' r1 P" ..
  then obtain s' where "\<exists>r1 P. ?X e s' r1 P" ..
  then obtain r1 where "\<exists>P. ?X e s' r1 P" ..
  then obtain P where all: "?X e s' r1 P" ..
  note sp = all [THEN conjunct1]
  note rest1 = all [THEN conjunct2]
  note o = rest1 [THEN conjunct1]
  note rest2 = rest1 [THEN conjunct2, THEN conjunct2]
  note len = rest2 [THEN conjunct1]
  note fields = rest2 [THEN conjunct2, THEN conjunct1]
  note rest3 = rest2 [THEN conjunct2, THEN conjunct2]
  note pop = rest3 [THEN conjunct1]
  note best = rest3 [THEN conjunct2, THEN conjunct2]
  have l2: "length P = 2" using len f by simp
  then have p01: "P = [P ! 0, P ! 1]"
    by (intro nth_equalityI) (auto simp: nth_Cons split: nat.splits)
  have v0: "fvalue (P ! 0) = 148"
    using fields [THEN spec, of 0] l2 by (simp add: f d pos fn)
  have k1: "(1 :: nat) < length P" using l2 by simp
  note f1 = fields [THEN spec, THEN mp, OF k1]
  have x1: "pos_x (P ! 1) = 1"
    using f1 [THEN conjunct2, THEN conjunct1] by (simp add: f d pos)
  have y1: "pos_y (P ! 1) = 0"
    using f1 [THEN conjunct2, THEN conjunct2, THEN conjunct1] by (simp add: f d pos)
  have "fvalue (P ! 1) = fn himmelblau (pos_x (P ! 1)) (pos_y (P ! 1))"
    using f1 by (elim conjE)
  then have v1: "fvalue (P ! 1) = 136"
    unfolding x1 y1 fn .
  have vals: "map fvalue P = [148, 136]"
    by (subst p01) (simp add: v0 v1 [unfolded One_nat_def])
  have "P \<noteq> []" using l2 by auto
  with best obtain m c rc where m: "m \<in> set P" "\<forall>g \<in> set P. fvalue m \<le> fvalue g"
    and c: "clone m zero_draws = (Inr c, rc)" "bestFirefly s' = Some c"
    by blast
  have "fvalue m \<in> set (map fvalue P)" using m(1) by simp
  moreover have "fvalue m \<le> fvalue (P ! 1)"
    using m(2) l2 by simp
  ultimately have "fvalue m = 136"
    unfolding vals v1 by auto
  then have "fvalue c = 136"
    using clone_Inr [OF c(1)] by simp
  with sp o pop n vals c(2) have "\<exists>e s' r1. setParams sample_swarm to_himmelblau zero_draws = (e, s', r1) \<and>
      algObjectiveFunction s' = Some himmelblau \<and>
      map fvalue (fireflies s') = [148, 136] \<and>
      (\<exists>c. bestFirefly s' = Some c \<and> fvalue c = 136)"
    by auto
  then show ?thesis
    using h n f b by (intro conjI)
qed

section \<open>initialize: the best snapshot across a reset\<close>

text \<open>
  \<^verbatim>\<open>initialize\<close> empties the population and sets the generation to zero, but it leaves
  \<^verbatim>\<open>bestFirefly\<close> as it is; \<^verbatim>\<open>updateBest\<close> then replaces the snapshot only when the new
  minimum is strictly lower.  The constructor sets \<^verbatim>\<open>bestFirefly\<close> to null before it calls
  \<^verbatim>\<open>initialize\<close>, and \<^verbatim>\<open>setParams\<close> does so before \<^verbatim>\<open>updateBest\<close> when the function changes;
  \<^verbatim>\<open>reset\<close> does not.  The run below builds a swarm of one agent on the sphere function with
  all ten draws equal to \<open>1/2\<close> (the agent lands on the origin, value \<open>0\<close>), then resets it
  with all draws equal to \<open>9/10\<close> (the new agent lands on \<open>(4, 4)\<close>, value \<open>32\<close>).
\<close>

definition stale_draws :: rand where
  "stale_draws = (\<lambda>k. if k < 10 then 1 / 2 else 9 / 10)"

definition late_draws :: rand where
  "late_draws = (\<lambda>k. 9 / 10)"

definition one_sphere :: new_params where
  "one_sphere = no_params\<lparr> new_n := Some 1, new_functionKey := Some ''sphere'' \<rparr>"

definition first_agent :: firefly where
  "first_agent =
    \<lparr> pos_x = 0, pos_y = 0, objectiveFunction = Some sphere, brightness = 0,
      trail = [], maxTrailLength = 20, gender = Female,
      flashPhase = 3000, flashInterval = 4500, flashDuration = 200,
      isFlashing = False, flashIntensity = 0,
      responseDelay = 0, isResponding = False, fvalue = 0 \<rparr>"

definition second_agent :: firefly where
  "second_agent =
    \<lparr> pos_x = 4, pos_y = 4, objectiveFunction = Some sphere, brightness = - 32,
      trail = [], maxTrailLength = 20, gender = Female,
      flashPhase = 5400, flashInterval = 5700, flashDuration = 240,
      isFlashing = False, flashIntensity = 0,
      responseDelay = 0, isResponding = False, fvalue = 32 \<rparr>"

definition first_swarm :: algorithm where
  "first_swarm =
    \<lparr> params = \<lparr> param_n = 1, param_gamma = 1, param_beta0 = 1, param_alpha = 0.2,
                  param_functionKey = ''sphere'' \<rparr>,
      generation = 0, fireflies = [first_agent], bestFirefly = Some first_agent,
      algObjectiveFunction = Some sphere \<rparr>"

lemma initializeLoop_unfold:
  "initializeLoop i n obj fs r0 =
    (if int i < n then
       (case newFirefly (xMin (domain obj) + r0 0 * (xMax (domain obj) - xMin (domain obj)))
               (yMin (domain obj) + r0 (Suc 0) * (yMax (domain obj) - yMin (domain obj)))
               (Some obj) (\<lambda>k. r0 (Suc (Suc k))) of
          (Inl e, r3) \<Rightarrow> (Some e, fs, r3)
        | (Inr firefly, r3) \<Rightarrow> initializeLoop (i + 1) n obj (fs @ [firefly]) r3)
     else (None, fs, r0))"
  by (subst initializeLoop.simps) (simp add: random_def Let_def)

lemma stale_draws_shift: "(\<lambda>k. stale_draws (k + 10)) = late_draws"
  by (simp add: stale_draws_def late_draws_def)

lemma first_newFirefly:
  "newFirefly 0 0 (Some sphere) (\<lambda>k. stale_draws (Suc (Suc k))) =
     (Inr first_agent, \<lambda>k. stale_draws (k + 6))"
  by (simp add: newFirefly_def random_def evaluate_def Let_def stale_draws_def first_agent_def
      sphere_def eval_nat_numeral)

lemma first_clone:
  "clone first_agent (\<lambda>k. stale_draws (k + 6)) = (Inr first_agent, late_draws)"
  by (simp add: clone_def newFirefly_def random_def evaluate_def Let_def stale_draws_def
      first_agent_def sphere_def late_draws_def)

lemma second_newFirefly:
  "newFirefly 4 4 (Some sphere) late_draws = (Inr second_agent, late_draws)"
  by (simp add: newFirefly_def random_def evaluate_def Let_def late_draws_def second_agent_def
      sphere_def)

lemma first_construction:
  "newFireflyAlgorithm one_sphere stale_draws = (None, first_swarm, late_draws)"
proof -
  have d: "xMin (domain sphere) = - 5" "xMax (domain sphere) = 5"
    "yMin (domain sphere) = - 5" "yMax (domain sphere) = 5"
    by (simp_all add: sphere_def)
  have s: "stale_draws 0 = 1 / 2" "stale_draws (Suc 0) = 1 / 2"
    by (simp_all add: stale_draws_def)
  have loop: "initializeLoop 0 1 sphere [] stale_draws = (None, [first_agent], \<lambda>k. stale_draws (k + 6))"
    by (subst initializeLoop_unfold, simp add: d s first_newFirefly)
      (subst initializeLoop_unfold, simp)
  show ?thesis
    by (simp add: newFireflyAlgorithm_def one_sphere_def no_params_def initialize_def
        objectiveFunctions_def loop updateBest_def lowestValue_def first_clone first_swarm_def)
qed

lemma stale_reset:
  "reset first_swarm late_draws = (None, first_swarm\<lparr> fireflies := [second_agent] \<rparr>, late_draws)"
proof -
  have d: "xMin (domain sphere) = - 5" "xMax (domain sphere) = 5"
    "yMin (domain sphere) = - 5" "yMax (domain sphere) = 5"
    by (simp_all add: sphere_def)
  have s: "late_draws 0 = 9 / 10" "late_draws (Suc 0) = 9 / 10"
    "(\<lambda>k. late_draws (Suc (Suc k))) = late_draws"
    by (simp_all add: late_draws_def)
  have loop: "initializeLoop 0 1 sphere [] late_draws = (None, [second_agent], late_draws)"
    by (subst initializeLoop_unfold, simp add: d s second_newFirefly)
      (subst initializeLoop_unfold, simp)
  have v: "fvalue first_agent = 0" "fvalue second_agent = 32"
    by (simp_all add: first_agent_def second_agent_def)
  show ?thesis
    by (simp add: reset_def initialize_def first_swarm_def loop updateBest_def lowestValue_def v)
qed

text \<open>
  Claim C2 (\<^verbatim>\<open>initialize\<close> recomputes the best from scratch, whatever best was recorded
  before).  At the run above the code does otherwise: after \<^verbatim>\<open>reset\<close> the generation is \<open>0\<close> and
  the population is the single new agent of value \<open>32\<close>, yet \<^verbatim>\<open>bestFirefly\<close> is still the
  snapshot of the discarded agent of value \<open>0\<close>, which is no member of the new population.
\<close>

theorem initialize_keeps_stale_best:
  "newFireflyAlgorithm one_sphere stale_draws = (None, first_swarm, late_draws) \<and>
   fireflies first_swarm = [first_agent] \<and> bestFirefly first_swarm = Some first_agent \<and>
   fvalue first_agent = 0 \<and>
   reset first_swarm late_draws = (None, first_swarm\<lparr> fireflies := [second_agent] \<rparr>, late_draws) \<and>
   generation (first_swarm\<lparr> fireflies := [second_agent] \<rparr>) = 0 \<and>
   fvalue second_agent = 32 \<and>
   bestFirefly (first_swarm\<lparr> fireflies := [second_agent] \<rparr>) = Some first_agent"
  using first_construction stale_reset
  by (simp add: first_swarm_def first_agent_def second_agent_def)

end
